theory Spec2Isabelle
  imports Main "HOL-Library.AList" "HOL-Library.Product_Lexorder"
begin

section \<open>Data model of the query engine (server.js)\<close>

text \<open>
  Times are integer seconds from local midnight (\<open>int\<close>); a time that JavaScript holds as
  \<open>null\<close> or \<open>undefined\<close> is \<open>None\<close>. Stop, trip, route and service identifiers are
  strings. A JavaScript object used as a dictionary is a map; where the code iterates over
  the keys of such an object (\<open>Object.entries\<close>, \<open>Object.keys\<close>) or over a \<open>Set\<close> or a
  \<open>Map\<close>, the model keeps an association list or a duplicate-free list in insertion order.
  Stop identifiers carry an operator prefix, so none of them is a canonical array index and
  insertion order is the iteration order of the object.

  For a key that an object does not hold, \<open>obj[key]\<close> answers \<open>undefined\<close> unless
  the key names a property that every object inherits (\<open>constructor\<close>, \<open>toString\<close>,
  ...), in which case it answers that property. The identifiers of the timetable and of the
  search functions name no such property, and their lookups are lookups in a map. A request
  can hold any string: the lookup of the requested date in the calendar index, in
  \<open>getActiveServices\<close>, and the first lookup of a requested identifier, in
  \<open>resolveStopIds\<close>, are modelled with the inherited properties.
\<close>

record stop_time =
  stop_id :: string
  arr_time :: "int option"
  dep_time :: "int option"

record trip =
  trip_id :: string
  service_id :: string
  train_type :: string
  operator :: string
  stop_times :: "stop_time list"

text \<open>
  An element of a transfer list in \<open>transfer_index.json\<close> is either a bare string or an
  object \<open>{ id, interCity }\<close>.
\<close>

datatype raw_entry = Plain string | Tagged string bool

record entry =
  entry_id :: string
  interCity :: bool

record station =
  st_name :: string
  st_city :: string
  st_country :: string
  st_stopIds :: "string list"

text \<open>
  The module-level data the request handlers read, as loaded by \<open>initEngine\<close>, together with
  the services of the JavaScript runtime that the code calls and that are not part of the
  repository: \<open>utcMonth d\<close> stands for
  \<open>new Date(d + 'T12:00:00Z').getUTCMonth() + 1\<close> (\<open>None\<close> when the result is \<open>NaN\<close>),
  \<open>normalizeCity\<close> for \<open>toLowerCase().normalize('NFD')\<close> followed by the removal of the
  combining marks, and \<open>classifyTrain\<close> for the name-based branch of \<open>detectTrainType\<close>
  that is taken only for a trip stored without a train type.
\<close>

record engine =
  stopKeys :: "string list"
  routeTrips :: "(string \<times> trip list) list"
  calendarIndex :: "string \<rightharpoonup> string list"
  transferIndex :: "string \<rightharpoonup> raw_entry list"
  stopsIndex :: "station list"
  utcMonth :: "string \<Rightarrow> nat option"
  normalizeCity :: "string \<Rightarrow> string"
  classifyTrain :: "string \<Rightarrow> string \<Rightarrow> string \<Rightarrow> string \<Rightarrow> string"

definition MAX_ROUNDS :: nat where
  "MAX_ROUNDS = 5"

definition MIN_TRANSFER_SAME :: int where
  "MIN_TRANSFER_SAME = 3 * 60"

definition MIN_TRANSFER_CROSS :: int where
  "MIN_TRANSFER_CROSS = 10 * 60"

definition MIN_TRANSFER_CITY :: int where
  "MIN_TRANSFER_CITY = 45 * 60"

subsection \<open>Operators and transfer times\<close>

definition isCapital :: "char \<Rightarrow> bool" where
  "isCapital c = (c \<in> set ''ABCDEFGHIJKLMNOPQRSTUVWXYZ'')"

text \<open>\<open>extractOperator\<close>: the match of \<open>/^([A-Z]+):/\<close>, and \<open>'SNCF'\<close> without a match.\<close>

definition extractOperator :: "string \<Rightarrow> string" where
  "extractOperator sid =
     (let m = takeWhile isCapital sid in
      if m \<noteq> [] \<and> take 1 (dropWhile isCapital sid) = '':'' then m else ''SNCF'')"

definition transferEntries :: "engine \<Rightarrow> string \<Rightarrow> entry list" where
  "transferEntries eng stopId =
     map (\<lambda>e. case e of Plain s \<Rightarrow> \<lparr>entry_id = s, interCity = False\<rparr>
                      | Tagged s b \<Rightarrow> \<lparr>entry_id = s, interCity = b\<rparr>)
         (case transferIndex eng stopId of None \<Rightarrow> [] | Some es \<Rightarrow> es)"

definition transferTime :: "string \<Rightarrow> entry \<Rightarrow> int" where
  "transferTime fromId toEntry =
     (if interCity toEntry then MIN_TRANSFER_CITY
      else if extractOperator fromId = extractOperator (entry_id toEntry)
           then MIN_TRANSFER_SAME else MIN_TRANSFER_CROSS)"

text \<open>
  The operator prefix of a stop identifier, read from the identifier itself: the text before
  its first colon. It is an operator tag when it is a non-empty run of capital letters.
\<close>

definition operatorPrefix :: "string \<Rightarrow> string option" where
  "operatorPrefix sid =
     (if CHR '':'' \<in> set sid then Some (takeWhile (\<lambda>c. c \<noteq> CHR '':'') sid) else None)"

definition capitalPrefix :: "string \<Rightarrow> bool" where
  "capitalPrefix sid =
     (case operatorPrefix sid of None \<Rightarrow> False | Some p \<Rightarrow> p \<noteq> [] \<and> list_all isCapital p)"

subsection \<open>Time-zone adjustment of Trenitalia trips\<close>

definition tiAdjust :: "engine \<Rightarrow> int option \<Rightarrow> string \<Rightarrow> int option" where
  "tiAdjust eng seconds dateISO =
     (case seconds of
        None \<Rightarrow> None
      | Some s \<Rightarrow>
          if dateISO \<noteq> [] then
            Some (s + (case utcMonth eng dateISO of
                         None \<Rightarrow> 3600
                       | Some month \<Rightarrow> if 4 \<le> month \<and> month \<le> 9 then 7200 else 3600))
          else Some (s + 3600))"

text \<open>
  The two reads of \<open>scanTrip\<close>: the departure time \<open>st.dep_time ?? st.arr_time\<close> used for
  boarding and the arrival time \<open>st.arr_time ?? st.dep_time\<close> used for relaxing, each
  adjusted when the trip's operator is TI.
\<close>

definition rawDep :: "stop_time \<Rightarrow> int option" where
  "rawDep st = (case dep_time st of Some d \<Rightarrow> Some d | None \<Rightarrow> arr_time st)"

definition rawArr :: "stop_time \<Rightarrow> int option" where
  "rawArr st = (case arr_time st of Some a \<Rightarrow> Some a | None \<Rightarrow> dep_time st)"

definition depAt :: "engine \<Rightarrow> trip \<Rightarrow> stop_time \<Rightarrow> string \<Rightarrow> int option" where
  "depAt eng trip st dateISO =
     (if operator trip = ''TI'' \<and> rawDep st \<noteq> None then tiAdjust eng (rawDep st) dateISO
      else rawDep st)"

definition arrAt :: "engine \<Rightarrow> trip \<Rightarrow> stop_time \<Rightarrow> string \<Rightarrow> int option" where
  "arrAt eng trip st dateISO =
     (if operator trip = ''TI'' \<and> rawArr st \<noteq> None then tiAdjust eng (rawArr st) dateISO
      else rawArr st)"

text \<open>
  A reader of calendar dates for the examples: the month of a string of the shape
  \<open>YYYY-MM-DD\<close>, as the runtime computes it for a date that exists in the calendar.
\<close>

definition digitOf :: "char \<Rightarrow> nat option" where
  "digitOf c = map_of (zip ''0123456789'' [0, 1, 2, 3, 4, 5, 6, 7, 8, 9]) c"

definition isoMonth :: "string \<Rightarrow> nat option" where
  "isoMonth d =
     (if length d = 10 \<and> d ! 4 = CHR ''-'' \<and> d ! 7 = CHR ''-'' then
        (case (digitOf (d ! 5), digitOf (d ! 6)) of
           (Some a, Some b) \<Rightarrow> if 1 \<le> 10 * a + b \<and> 10 * a + b \<le> 12 then Some (10 * a + b) else None
         | _ \<Rightarrow> None)
      else None)"

definition emptyEngine :: engine where
  "emptyEngine =
     \<lparr>stopKeys = [], routeTrips = [], calendarIndex = Map.empty, transferIndex = Map.empty,
      stopsIndex = [], utcMonth = isoMonth, normalizeCity = (\<lambda>s. s),
      classifyTrain = (\<lambda>fromStopId tripId op routeId. ''TRAIN'')\<rparr>"

definition milanoTrip :: trip where
  "milanoTrip =
     \<lparr>trip_id = ''TI:9292'', service_id = ''TI:s1'', train_type = ''FRECCIAROSSA'',
      operator = ''TI'',
      stop_times = [\<lparr>stop_id = ''TI:S01700'', arr_time = None, dep_time = Some 39600\<rparr>,
                    \<lparr>stop_id = ''TI:S99999'', arr_time = Some 64800, dep_time = None\<rparr>]\<rparr>"

section \<open>Ingestion pipeline (gtfs-ingest.js)\<close>

subsection \<open>Repair of circular trips\<close>

text \<open>
  A stop time of \<open>tripStops\<close> is a stop time with its sequence number. The sorts of the
  code are \<open>Array.prototype.sort\<close> with a numeric difference as comparator: a stable
  sort by that key. The time of a stop time, in the comparator of the last sort, is its
  departure time, else its arrival time, else 0.

  The repair reads the first stop of a segment (\<open>a.stops[0].dep_time\<close> in the comparator
  of the segments, \<open>segments[k].stops[0]\<close> in the merge) and the last stop of the current
  group (\<open>slice(-1)[0]\<close>). On an empty list these reads give \<open>undefined\<close> and the
  property access that follows throws: the result \<open>None\<close> of the model.
\<close>

record seq_stop = stop_time +
  seq :: int

definition timeKey :: "'a stop_time_scheme \<Rightarrow> int" where
  "timeKey s = (case dep_time s of Some d \<Rightarrow> d | None \<Rightarrow> (case arr_time s of Some a \<Rightarrow> a | None \<Rightarrow> 0))"

definition backwardJump :: "seq_stop \<Rightarrow> seq_stop \<Rightarrow> bool" where
  "backwardJump prev cur =
     (let prevTime = (case dep_time prev of Some d \<Rightarrow> d
                      | None \<Rightarrow> (case arr_time prev of Some a \<Rightarrow> a | None \<Rightarrow> - 1));
          currTime = (case arr_time cur of Some a \<Rightarrow> a
                      | None \<Rightarrow> (case dep_time cur of Some d \<Rightarrow> d | None \<Rightarrow> prevTime + 1))
      in prevTime \<ge> 0 \<and> currTime < prevTime - 600)"

fun cutSegments :: "seq_stop \<Rightarrow> seq_stop list \<Rightarrow> seq_stop list \<Rightarrow> seq_stop list list" where
  "cutSegments prev seg [] = [seg]"
| "cutSegments prev seg (s # rest) =
     (if backwardJump prev s then seg # cutSegments s [s] rest
      else cutSegments s (seg @ [s]) rest)"

definition segmentsOf :: "seq_stop list \<Rightarrow> seq_stop list list" where
  "segmentsOf stops = (case stops of [] \<Rightarrow> [[]] | s # rest \<Rightarrow> cutSegments s [s] rest)"

definition segmentStart :: "seq_stop list \<Rightarrow> int" where
  "segmentStart seg = (case seg of [] \<Rightarrow> 0 | s # _ \<Rightarrow> timeKey s)"

definition compatible :: "seq_stop \<Rightarrow> seq_stop \<Rightarrow> bool" where
  "compatible lastStop firstStop =
     (let lastTime = (case arr_time lastStop of Some a \<Rightarrow> a
                      | None \<Rightarrow> (case dep_time lastStop of Some d \<Rightarrow> d | None \<Rightarrow> - 1));
          firstTime = (case dep_time firstStop of Some d \<Rightarrow> d
                       | None \<Rightarrow> (case arr_time firstStop of Some a \<Rightarrow> a | None \<Rightarrow> lastTime + 1))
      in firstTime \<ge> lastTime - 600)"

fun mergeSegs ::
  "seq_stop list list \<Rightarrow> seq_stop list \<Rightarrow> seq_stop list list \<Rightarrow> seq_stop list list option" where
  "mergeSegs done cur [] = Some (done @ [cur])"
| "mergeSegs done cur (seg # rest) =
     (case (rev cur, seg) of
        (lastStop # _, firstStop # _) \<Rightarrow>
          if compatible lastStop firstStop then mergeSegs done (cur @ seg) rest
          else mergeSegs (done @ [cur]) seg rest
      | _ \<Rightarrow> None)"

definition repairTrip :: "seq_stop list \<Rightarrow> seq_stop list option" where
  "repairTrip stops0 =
     (let stops = sort_key seq stops0;
          segments = segmentsOf stops
      in if length segments > 1 then
           (if [] \<in> set segments then None
            else (case sort_key segmentStart segments of
                    [] \<Rightarrow> None
                  | first # others \<Rightarrow>
                      (case mergeSegs [] first others of
                         None \<Rightarrow> None
                       | Some mergedSegs \<Rightarrow>
                           (case sort_key (\<lambda>g. - int (length g)) mergedSegs of
                              [] \<Rightarrow> None
                            | longest # _ \<Rightarrow> Some (sort_key timeKey longest)))))
         else Some (sort_key timeKey stops))"

definition rotation :: "seq_stop list" where
  "rotation =
    [\<lparr>stop_id = ''TI:paris'', arr_time = Some 23400, dep_time = Some 23400, seq = 39\<rparr>,
     \<lparr>stop_id = ''TI:torino'', arr_time = Some 41760, dep_time = Some 41760, seq = 5\<rparr>,
     \<lparr>stop_id = ''TI:milano'', arr_time = Some 44520, dep_time = Some 44520, seq = 24\<rparr>,
     \<lparr>stop_id = ''TI:lyon'', arr_time = Some 30660, dep_time = Some 30660, seq = 90\<rparr>,
     \<lparr>stop_id = ''TI:milano2'', arr_time = Some 47460, dep_time = Some 47460, seq = 38\<rparr>]"

text \<open>
  A trip that dwells two hours in Milano and is listed, with the next sequence number, at
  Torino in the meantime; and a trip that is listed at Milano five minutes before it leaves
  Torino.
\<close>

definition longDwell :: "seq_stop list" where
  "longDwell =
    [\<lparr>stop_id = ''TI:milano'', arr_time = Some 36000, dep_time = Some 43200, seq = 1\<rparr>,
     \<lparr>stop_id = ''TI:torino'', arr_time = Some 37000, dep_time = Some 37300, seq = 2\<rparr>]"

definition earlyArrival :: "seq_stop list" where
  "earlyArrival =
    [\<lparr>stop_id = ''TI:torino'', arr_time = Some 36000, dep_time = Some 36000, seq = 1\<rparr>,
     \<lparr>stop_id = ''TI:milano'', arr_time = Some 35700, dep_time = Some 36600, seq = 2\<rparr>]"

subsection \<open>Transfer index\<close>

text \<open>
  \<open>buildTransferIndex\<close> reads the identifiers of the stop dictionary in key order
  (\<open>ids\<close>), the station manifest \<open>stations.json\<close> when the file exists (the list of
  the \<open>stopIds\<close> of each station, \<open>None\<close> without the file), and the coordinates of
  the stops through the floating-point test \<open>haversine(...) < 300\<close>, which is the
  parameter \<open>near\<close>.
\<close>

type_synonym transfer_lists = "string \<rightharpoonup> string list"

definition listOf :: "transfer_lists \<Rightarrow> string \<Rightarrow> string list" where
  "listOf T a = (case T a of None \<Rightarrow> [] | Some l \<Rightarrow> l)"

definition ensureList :: "transfer_lists \<Rightarrow> string \<Rightarrow> transfer_lists" where
  "ensureList T a = (case T a of None \<Rightarrow> T(a \<mapsto> []) | Some l \<Rightarrow> T)"

definition pushNew :: "transfer_lists \<Rightarrow> string \<Rightarrow> string \<Rightarrow> transfer_lists" where
  "pushNew T a b = (if b \<in> set (listOf T a) then T else T(a \<mapsto> listOf T a @ [b]))"

definition linkBoth :: "transfer_lists \<Rightarrow> string \<Rightarrow> string \<Rightarrow> transfer_lists" where
  "linkBoth T a b = pushNew (pushNew (ensureList (ensureList T a) b) a b) b a"

fun gpsPairs :: "(string \<Rightarrow> string \<Rightarrow> bool) \<Rightarrow> transfer_lists \<Rightarrow> string list \<Rightarrow> transfer_lists" where
  "gpsPairs near T [] = T"
| "gpsPairs near T (a # rest) =
     gpsPairs near (foldl (\<lambda>T b. if near a b then linkBoth T a b else T) T rest) rest"

definition manualFrom :: "string list \<Rightarrow> string list \<Rightarrow> transfer_lists \<Rightarrow> string \<Rightarrow> transfer_lists" where
  "manualFrom ids stopIds T idA =
     (if idA \<notin> set ids then T
      else foldl (\<lambda>T idB. if idA \<noteq> idB \<and> idB \<in> set ids then pushNew T idA idB else T)
             (ensureList T idA) stopIds)"

definition manualStation :: "string list \<Rightarrow> transfer_lists \<Rightarrow> string list \<Rightarrow> transfer_lists" where
  "manualStation ids T stopIds =
     (if length stopIds < 2 then T else foldl (manualFrom ids stopIds) T stopIds)"

definition buildTransferIndex ::
  "(string \<Rightarrow> string \<Rightarrow> bool) \<Rightarrow> string list \<Rightarrow> string list list option \<Rightarrow> transfer_lists" where
  "buildTransferIndex near ids stations =
     (let T = gpsPairs near Map.empty ids in
      case stations of None \<Rightarrow> T | Some sts \<Rightarrow> foldl (manualStation ids) T sts)"

definition links :: "transfer_lists \<Rightarrow> string \<Rightarrow> string set" where
  "links T a = set (listOf T a)"

definition symmetric :: "transfer_lists \<Rightarrow> bool" where
  "symmetric T = (\<forall>a b. b \<in> links T a \<longleftrightarrow> a \<in> links T b)"

section \<open>Round-based search (server.js)\<close>

subsection \<open>Search state\<close>

text \<open>
  A predecessor entry is either a ride on a trip (boarding stop, trip, route, departure at
  the boarding stop, arrival, stored train type and operator of the trip, the empty string
  standing for \<open>null\<close>) or a transfer on foot (\<open>is_transfer\<close>: origin stop, departure,
  arrival).
\<close>

datatype parent_entry =
  Ride string string string int int string string
| Walk string int int

text \<open>
  The legs and journeys of \<open>reconstructJourney\<close>, without the fields that only format
  others for display (stop and route names, \<open>HH:MM\<close> strings).
\<close>

record leg =
  from_id :: string
  to_id :: string
  leg_dep_time :: int
  leg_arr_time :: int
  leg_trip_id :: string
  leg_route_id :: string
  leg_operator :: string
  leg_train_type :: string
  leg_duration :: int

record journey =
  j_dep_time :: int
  j_arr_time :: int
  duration :: int
  transfers :: int
  train_types :: "string list"
  legs :: "leg list"

record scan_state =
  tauBest :: "string \<rightharpoonup> int"
  tau_cur :: "(string \<times> int) list"
  parent :: "(string \<times> parent_entry) list"

text \<open>\<open>x < (tau[sid] ?? Infinity)\<close>\<close>

definition earlier :: "int \<Rightarrow> int option \<Rightarrow> bool" where
  "earlier x tau = (case tau of None \<Rightarrow> True | Some y \<Rightarrow> x < y)"

text \<open>\<open>Set.prototype.add\<close> on a set kept in insertion order.\<close>

definition setAdd :: "'a \<Rightarrow> 'a list \<Rightarrow> 'a list" where
  "setAdd x xs = (if x \<in> set xs then xs else xs @ [x])"

definition newSet :: "'a list \<Rightarrow> 'a list" where
  "newSet xs = foldl (\<lambda>acc x. setAdd x acc) [] xs"

subsection \<open>Scanning one trip\<close>

text \<open>
  The loop of \<open>scanTrip\<close> over the stop times from \<open>fromIdx\<close> on; \<open>board\<close> is \<open>None\<close>
  until the trip is boarded and then holds \<open>boardStop\<close> and \<open>boardDep\<close>.
\<close>

fun scanStops ::
  "engine \<Rightarrow> trip \<Rightarrow> string \<Rightarrow> string \<Rightarrow> stop_time list \<Rightarrow> (string \<times> int) option
     \<Rightarrow> scan_state \<Rightarrow> scan_state" where
  "scanStops eng trip routeId dateISO [] board s = s"
| "scanStops eng trip routeId dateISO (st # rest) None s =
     (case tauBest s (stop_id st) of
        None \<Rightarrow> scanStops eng trip routeId dateISO rest None s
      | Some tau \<Rightarrow>
          (case depAt eng trip st dateISO of
             None \<Rightarrow> scanStops eng trip routeId dateISO rest None s
           | Some dep \<Rightarrow>
               if dep \<ge> tau then scanStops eng trip routeId dateISO rest (Some (stop_id st, dep)) s
               else scanStops eng trip routeId dateISO rest None s))"
| "scanStops eng trip routeId dateISO (st # rest) (Some (boardStop, boardDep)) s =
     (case arrAt eng trip st dateISO of
        None \<Rightarrow> scanStops eng trip routeId dateISO rest (Some (boardStop, boardDep)) s
      | Some arr \<Rightarrow>
          if earlier arr (tauBest s (stop_id st)) then
            scanStops eng trip routeId dateISO rest (Some (boardStop, boardDep))
              \<lparr>tauBest = (tauBest s)(stop_id st \<mapsto> arr),
               tau_cur = AList.update (stop_id st) arr (tau_cur s),
               parent = AList.update (stop_id st)
                          (Ride boardStop (trip_id trip) routeId boardDep arr
                             (train_type trip) (operator trip))
                          (parent s)\<rparr>
          else scanStops eng trip routeId dateISO rest (Some (boardStop, boardDep)) s)"

definition scanTrip ::
  "engine \<Rightarrow> trip \<Rightarrow> nat \<Rightarrow> scan_state \<Rightarrow> string \<Rightarrow> string \<Rightarrow> scan_state" where
  "scanTrip eng trip fromIdx s routeId dateISO =
     scanStops eng trip routeId dateISO (drop fromIdx (stop_times trip)) None s"

subsection \<open>Journey reconstruction\<close>

definition detectTrainType ::
  "engine \<Rightarrow> string \<Rightarrow> string \<Rightarrow> string \<Rightarrow> string \<Rightarrow> string \<Rightarrow> string" where
  "detectTrainType eng fromStopId tripId stored op routeId =
     (if stored \<noteq> [] then stored else classifyTrain eng fromStopId tripId op routeId)"

text \<open>\<open>Math.round((arr - dep) / 60)\<close>: halves are rounded up.\<close>

definition roundMinutes :: "int \<Rightarrow> int" where
  "roundMinutes d = (d + 30) div 60"

definition rideLeg ::
  "engine \<Rightarrow> string \<Rightarrow> string \<Rightarrow> string \<Rightarrow> int \<Rightarrow> int \<Rightarrow> string \<Rightarrow> string \<Rightarrow> string
     \<Rightarrow> leg" where
  "rideLeg eng fromStop tripId routeId depTime arrTime storedType storedOp current =
     (let op = (if storedOp \<noteq> [] then storedOp else extractOperator fromStop);
          trainType = detectTrainType eng fromStop tripId storedType op routeId
      in \<lparr>from_id = fromStop, to_id = current, leg_dep_time = depTime,
          leg_arr_time = arrTime, leg_trip_id = tripId, leg_route_id = routeId,
          leg_operator = op, leg_train_type = trainType,
          leg_duration = roundMinutes (arrTime - depTime)\<rparr>)"

text \<open>
  The back-walk of \<open>reconstructJourney\<close>: \<open>None\<close> is its \<open>return null\<close> on a
  revisited stop or on a stop without predecessor. The predecessor table is a finite
  object, which bounds the walk.
\<close>

function walkBack ::
  "engine \<Rightarrow> (string \<times> parent_entry) list \<Rightarrow> string list \<Rightarrow> string \<Rightarrow> string list
     \<Rightarrow> leg list \<Rightarrow> leg list option" where
  "walkBack eng par originSet current visited legsAcc =
     (if current \<in> set originSet then Some legsAcc
      else if current \<in> set visited then None
      else (case map_of par current of
              None \<Rightarrow> None
            | Some p \<Rightarrow>
                (case p of
                   Walk fromStop depTime arrTime \<Rightarrow>
                     walkBack eng par originSet fromStop (current # visited) legsAcc
                 | Ride fromStop tripId routeId depTime arrTime storedType storedOp \<Rightarrow>
                     walkBack eng par originSet fromStop (current # visited)
                       (rideLeg eng fromStop tripId routeId depTime arrTime storedType storedOp current
                          # legsAcc))))"
  by pat_completeness auto
termination
proof (relation "measure (\<lambda>(eng, par, originSet, current, visited, legsAcc).
                   card (fst ` set par - set visited))")
  show "wf (measure (\<lambda>(eng, par, originSet, current, visited, legsAcc).
              card (fst ` set par - set visited)))"
    by simp
next
  fix eng :: engine and par :: "(string \<times> parent_entry) list" and originSet current visited
    and legsAcc :: "leg list" and p fromStop depTime arrTime
  assume "current \<notin> set visited" and "map_of par current = Some p"
  then have "current \<in> fst ` set par - set visited"
    by (auto dest: map_of_SomeD intro: rev_image_eqI)
  then have "card (fst ` set par - set (current # visited)) < card (fst ` set par - set visited)"
    by (intro psubset_card_mono) auto
  then show "((eng, par, originSet, fromStop, current # visited, legsAcc),
              (eng, par, originSet, current, visited, legsAcc))
             \<in> measure (\<lambda>(eng, par, originSet, current, visited, legsAcc).
                   card (fst ` set par - set visited))"
    by simp
next
  fix eng :: engine and par :: "(string \<times> parent_entry) list" and originSet current visited
    and legsAcc :: "leg list" and p fromStop tripId routeId depTime arrTime storedType storedOp
  assume "current \<notin> set visited" and "map_of par current = Some p"
  then have "current \<in> fst ` set par - set visited"
    by (auto dest: map_of_SomeD intro: rev_image_eqI)
  then have "card (fst ` set par - set (current # visited)) < card (fst ` set par - set visited)"
    by (intro psubset_card_mono) auto
  then show "((eng, par, originSet, fromStop, current # visited,
               rideLeg eng fromStop tripId routeId depTime arrTime storedType storedOp current
                 # legsAcc),
              (eng, par, originSet, current, visited, legsAcc))
             \<in> measure (\<lambda>(eng, par, originSet, current, visited, legsAcc).
                   card (fst ` set par - set visited))"
    by simp
qed

definition reconstructJourney ::
  "engine \<Rightarrow> (string \<times> parent_entry) list \<Rightarrow> string list \<Rightarrow> string \<Rightarrow> string
     \<Rightarrow> journey option" where
  "reconstructJourney eng par originSet destId dateISO =
     (case walkBack eng par originSet destId [] [] of
        None \<Rightarrow> None
      | Some [] \<Rightarrow> None
      | Some (l # ls) \<Rightarrow>
          (let dep = leg_dep_time l; arr = leg_arr_time (last (l # ls))
           in Some \<lparr>j_dep_time = dep, j_arr_time = arr, duration = roundMinutes (arr - dep),
                    transfers = int (length (l # ls)) - 1,
                    train_types = newSet (filter (\<lambda>t. t \<noteq> []) (map leg_train_type (l # ls))),
                    legs = l # ls\<rparr>))"

subsection \<open>The round-based core\<close>

record core_state =
  tau_best :: "string \<rightharpoonup> int"
  parents :: "(string \<times> parent_entry) list"
  originSet :: "string list"
  marked :: "string list"
  results :: "journey list"
  collected :: "string list"

text \<open>Initialisation: the body of the loop over \<open>originIds\<close> and its inner loop.\<close>

definition seedSister :: "int \<Rightarrow> string \<Rightarrow> core_state \<Rightarrow> entry \<Rightarrow> core_state" where
  "seedSister startTime oid c e =
     (let sister = entry_id e;
          t = startTime + transferTime oid e;
          c1 = (if earlier t (tau_best c sister) then
                  c\<lparr>tau_best := (tau_best c)(sister \<mapsto> t),
                    marked := setAdd sister (marked c),
                    parents := AList.update sister (Walk oid startTime t) (parents c)\<rparr>
                else c)
      in if \<not> interCity e then c1\<lparr>originSet := setAdd sister (originSet c1)\<rparr> else c1)"

definition seedOrigin :: "engine \<Rightarrow> int \<Rightarrow> core_state \<Rightarrow> string \<Rightarrow> core_state" where
  "seedOrigin eng startTime c oid =
     (let c1 = (if earlier startTime (tau_best c oid) then
                  c\<lparr>tau_best := (tau_best c)(oid \<mapsto> startTime), marked := setAdd oid (marked c)\<rparr>
                else c);
          c2 = c1\<lparr>originSet := setAdd oid (originSet c1)\<rparr>
      in foldl (seedSister startTime oid) c2 (transferEntries eng oid))"

definition initCore :: "engine \<Rightarrow> string list \<Rightarrow> int \<Rightarrow> core_state" where
  "initCore eng originIds startTime =
     foldl (seedOrigin eng startTime)
       \<lparr>tau_best = Map.empty, parents = [], originSet = [], marked = [], results = [],
        collected = []\<rparr>
       originIds"

text \<open>
  One round: the scans of the marked stops (\<open>scanMarked\<close>), the transfer relaxation
  and the collection of the journeys.
\<close>

type_synonym stop_to_trips = "string \<rightharpoonup> (string \<times> trip \<times> nat) list"

definition scanStop ::
  "engine \<Rightarrow> stop_to_trips \<Rightarrow> string \<Rightarrow> scan_state \<Rightarrow> string \<Rightarrow> scan_state" where
  "scanStop eng stopToTripsData dateISO s stop =
     foldl (\<lambda>s (routeId, trip, idx). scanTrip eng trip idx s routeId dateISO) s
       (case stopToTripsData stop of None \<Rightarrow> [] | Some es \<Rightarrow> es)"

text \<open>
  The transfer relaxation: the loop over the entries that \<open>tau_cur\<close> holds when the loop
  starts, with the arrival time each entry holds at that moment.
\<close>

definition relaxEntry ::
  "string \<Rightarrow> int \<Rightarrow> scan_state \<times> string list \<Rightarrow> entry \<Rightarrow> scan_state \<times> string list" where
  "relaxEntry sid arr sm e =
     (let s = fst sm; newMarked = snd sm;
          sister = entry_id e;
          t = arr + transferTime sid e
      in if earlier t (tauBest s sister) then
           (\<lparr>tauBest = (tauBest s)(sister \<mapsto> t),
             tau_cur = AList.update sister t (tau_cur s),
             parent = AList.update sister (Walk sid arr t) (parent s)\<rparr>,
            setAdd sister newMarked)
         else sm)"

definition relaxStop ::
  "engine \<Rightarrow> (string \<rightharpoonup> int) \<Rightarrow> scan_state \<times> string list \<Rightarrow> string \<times> int
     \<Rightarrow> scan_state \<times> string list" where
  "relaxStop eng tau_prev_round sm sa =
     (let sid = fst sa; arr = snd sa;
          sm1 = (if earlier arr (tau_prev_round sid) then (fst sm, setAdd sid (snd sm)) else sm)
      in foldl (relaxEntry sid arr) sm1 (transferEntries eng sid))"

text \<open>The collection of the journeys of a round, with and without destinations.\<close>

definition joinBar :: "string list \<Rightarrow> string" where
  "joinBar xs = (case xs of [] \<Rightarrow> [] | x # rest \<Rightarrow> foldl (\<lambda>acc y. acc @ ''|'' @ y) x rest)"

definition tripKey :: "journey \<Rightarrow> string" where
  "tripKey j = joinBar (map leg_trip_id (legs j))"

definition improved :: "scan_state \<Rightarrow> (string \<rightharpoonup> int) \<Rightarrow> string \<Rightarrow> bool" where
  "improved s tau_prev_round sid =
     (case map_of (tau_cur s) sid of None \<Rightarrow> False | Some v \<Rightarrow> earlier v (tau_prev_round sid))"

definition collectDest ::
  "engine \<Rightarrow> scan_state \<Rightarrow> (string \<rightharpoonup> int) \<Rightarrow> string list \<Rightarrow> string \<Rightarrow> journey list \<Rightarrow> string
     \<Rightarrow> journey list" where
  "collectDest eng s tau_prev_round origins dateISO res did =
     (if improved s tau_prev_round did then
        (case reconstructJourney eng (parent s) origins did dateISO of
           None \<Rightarrow> res
         | Some j \<Rightarrow> if tripKey j \<in> set (map tripKey res) then res else res @ [j])
      else res)"

definition collectReached ::
  "engine \<Rightarrow> scan_state \<Rightarrow> (string \<rightharpoonup> int) \<Rightarrow> string list \<Rightarrow> string
     \<Rightarrow> journey list \<times> string list \<Rightarrow> string \<Rightarrow> journey list \<times> string list" where
  "collectReached eng s tau_prev_round origins dateISO rc sid =
     (if sid \<in> set origins \<or> sid \<in> set (snd rc) then rc
      else if improved s tau_prev_round sid then
        (case reconstructJourney eng (parent s) origins sid dateISO of
           None \<Rightarrow> rc
         | Some j \<Rightarrow> (fst rc @ [j], setAdd sid (snd rc)))
      else rc)"

definition scanMarked :: "engine \<Rightarrow> stop_to_trips \<Rightarrow> string \<Rightarrow> core_state \<Rightarrow> scan_state" where
  "scanMarked eng stopToTripsData dateISO c =
     foldl (scanStop eng stopToTripsData dateISO)
       \<lparr>tauBest = tau_best c, tau_cur = [], parent = parents c\<rparr> (marked c)"

definition roundStep ::
  "engine \<Rightarrow> stop_to_trips \<Rightarrow> string \<Rightarrow> string list option \<Rightarrow> core_state \<Rightarrow> core_state" where
  "roundStep eng stopToTripsData dateISO destIds c =
     (let tau_prev_round = tau_best c;
          s1 = scanMarked eng stopToTripsData dateISO c;
          sm = foldl (relaxStop eng tau_prev_round) (s1, []) (tau_cur s1);
          s2 = fst sm;
          rc = (case destIds of
                  Some ds \<Rightarrow>
                    (foldl (collectDest eng s2 tau_prev_round (originSet c) dateISO) (results c)
                       (newSet ds),
                     collected c)
                | None \<Rightarrow>
                    foldl (collectReached eng s2 tau_prev_round (originSet c) dateISO)
                      (results c, collected c) (map fst (tau_cur s2)))
      in c\<lparr>tau_best := tauBest s2, parents := parent s2, marked := snd sm,
           results := fst rc, collected := snd rc\<rparr>)"

text \<open>
  The loop over the rounds: \<open>n\<close> rounds are left; a round that marks no stop is the last.
\<close>

fun raptorRounds ::
  "engine \<Rightarrow> stop_to_trips \<Rightarrow> string \<Rightarrow> string list option \<Rightarrow> nat \<Rightarrow> core_state \<Rightarrow> core_state" where
  "raptorRounds eng stopToTripsData dateISO destIds 0 c = c"
| "raptorRounds eng stopToTripsData dateISO destIds (Suc n) c =
     (let c' = roundStep eng stopToTripsData dateISO destIds c
      in if marked c' = [] then c' else raptorRounds eng stopToTripsData dateISO destIds n c')"

definition raptorFinal ::
  "engine \<Rightarrow> string list \<Rightarrow> string list option \<Rightarrow> int \<Rightarrow> stop_to_trips \<Rightarrow> string \<Rightarrow> core_state" where
  "raptorFinal eng originIds destIds startTime stopToTripsData dateISO =
     raptorRounds eng stopToTripsData dateISO destIds MAX_ROUNDS
       (initCore eng originIds startTime)"

definition raptorCore ::
  "engine \<Rightarrow> string list \<Rightarrow> string list option \<Rightarrow> int \<Rightarrow> stop_to_trips \<Rightarrow> string
     \<Rightarrow> journey list" where
  "raptorCore eng originIds destIds startTime stopToTripsData dateISO =
     results (raptorFinal eng originIds destIds startTime stopToTripsData dateISO)"

text \<open>\<open>buildStopToTrips\<close>, over the routes in the key order of \<open>tripsData\<close>.\<close>

definition pushEntry ::
  "string \<Rightarrow> trip \<Rightarrow> stop_to_trips \<times> nat \<Rightarrow> stop_time \<Rightarrow> stop_to_trips \<times> nat" where
  "pushEntry routeId trip ix st =
     (let index = fst ix; i = snd ix; sid = stop_id st
      in (index(sid \<mapsto> (case index sid of None \<Rightarrow> [] | Some es \<Rightarrow> es) @ [(routeId, trip, i)]),
          Suc i))"

definition indexTrip :: "string \<Rightarrow> stop_to_trips \<Rightarrow> trip \<Rightarrow> stop_to_trips" where
  "indexTrip routeId index trip = fst (foldl (pushEntry routeId trip) (index, 0) (stop_times trip))"

definition buildStopToTrips :: "(string \<times> trip list) list \<Rightarrow> stop_to_trips" where
  "buildStopToTrips tripsData =
     foldl (\<lambda>index (routeId, trips). foldl (indexTrip routeId) index trips) Map.empty tripsData"

subsection \<open>Enumeration of the results (searchJourneys)\<close>

record enum_state =
  e_results :: "journey list"
  seen :: "string list"
  t_cur :: int
  noNewCount :: nat

text \<open>
  The body of the loop over a batch: \<open>rsm\<close> holds \<open>results\<close>, \<open>seen\<close> and
  \<open>maxDepThis\<close>. A supplied set of allowed train types keeps a journey when one of its
  train types is in the set.
\<close>

definition typeAllowed :: "string list option \<Rightarrow> journey \<Rightarrow> bool" where
  "typeAllowed allowedTypes j =
     (case allowedTypes of
        None \<Rightarrow> True
      | Some allowed \<Rightarrow> list_ex (\<lambda>tt. tt \<in> set allowed) (train_types j))"

definition acceptJourney ::
  "int \<Rightarrow> string list option \<Rightarrow> journey list \<times> string list \<times> int \<Rightarrow> journey
     \<Rightarrow> journey list \<times> string list \<times> int" where
  "acceptJourney startTime allowedTypes rsm j =
     (let res = fst rsm; sn = fst (snd rsm); maxDepThis = snd (snd rsm)
      in if j_dep_time j < startTime then rsm
         else if \<not> typeAllowed allowedTypes j then rsm
         else if tripKey j \<notin> set sn then
           (res @ [j], sn @ [tripKey j],
            if j_dep_time j > maxDepThis then j_dep_time j else maxDepThis)
         else rsm)"

definition acceptBatch ::
  "int \<Rightarrow> string list option \<Rightarrow> enum_state \<Rightarrow> journey list \<Rightarrow> journey list \<times> string list \<times> int" where
  "acceptBatch startTime allowedTypes e batch =
     foldl (acceptJourney startTime allowedTypes) (e_results e, seen e, - 1) batch"

text \<open>
  One iteration of the \<open>while\<close> loop of \<open>searchJourneys\<close>: the state after the iteration
  and whether the iteration ends with \<open>break\<close>.
\<close>

definition enumStep ::
  "(int \<Rightarrow> journey list) \<Rightarrow> int \<Rightarrow> string list option \<Rightarrow> enum_state \<Rightarrow> enum_state \<times> bool" where
  "enumStep core startTime allowedTypes e =
     (let rsm = acceptBatch startTime allowedTypes e (core (t_cur e));
          res = fst rsm; sn = fst (snd rsm); maxDepThis = snd (snd rsm)
      in if maxDepThis \<ge> 0 then
           (\<lparr>e_results = res, seen = sn, t_cur = maxDepThis + 1, noNewCount = 0\<rparr>, False)
         else
           (\<lparr>e_results = res, seen = sn, t_cur = t_cur e + 1800,
             noNewCount = Suc (noNewCount e)\<rparr>,
            Suc (noNewCount e) \<ge> 4 \<and> res \<noteq> []))"

definition loopGuard :: "int \<Rightarrow> int \<Rightarrow> enum_state \<Rightarrow> bool" where
  "loopGuard startTime limit e =
     (int (length (e_results e)) < limit \<and> t_cur e \<le> startTime + 14 * 3600)"

lemma acceptBatch_length:
  "length (fst (foldl (acceptJourney startTime allowedTypes) rsm batch)) \<ge> length (fst rsm)
   \<and> (snd (snd (foldl (acceptJourney startTime allowedTypes) rsm batch)) \<noteq> snd (snd rsm) \<longrightarrow>
        length (fst (foldl (acceptJourney startTime allowedTypes) rsm batch)) > length (fst rsm))"
proof (induction batch arbitrary: rsm)
  case Nil
  show ?case by simp
next
  case (Cons j batch)
  have step: "length (fst (acceptJourney startTime allowedTypes rsm j)) \<ge> length (fst rsm)
    \<and> (snd (snd (acceptJourney startTime allowedTypes rsm j)) \<noteq> snd (snd rsm) \<longrightarrow>
         length (fst (acceptJourney startTime allowedTypes rsm j)) > length (fst rsm))"
    by (simp add: acceptJourney_def Let_def)
  from Cons.IH [of "acceptJourney startTime allowedTypes rsm j"] step show ?case
    by (cases "snd (snd (acceptJourney startTime allowedTypes rsm j)) = snd (snd rsm)") auto
qed

function searchLoop ::
  "(int \<Rightarrow> journey list) \<Rightarrow> int \<Rightarrow> int \<Rightarrow> string list option \<Rightarrow> enum_state \<Rightarrow> enum_state" where
  "searchLoop core startTime limit allowedTypes e =
     (if loopGuard startTime limit e then
        (let eb = enumStep core startTime allowedTypes e
         in if snd eb then fst eb else searchLoop core startTime limit allowedTypes (fst eb))
      else e)"
  by pat_completeness auto
termination
proof (relation "measures [\<lambda>(core, startTime, limit, allowedTypes, e).
                             nat (limit - int (length (e_results e))),
                           \<lambda>(core, startTime, limit, allowedTypes, e).
                             nat (startTime + 14 * 3600 + 1 - t_cur e)]")
  show "wf (measures [\<lambda>(core, startTime, limit, allowedTypes, e).
                        nat (limit - int (length (e_results e))),
                      \<lambda>(core :: int \<Rightarrow> journey list, startTime, limit :: int,
                         allowedTypes :: string list option, e).
                        nat (startTime + 14 * 3600 + 1 - t_cur e)])"
    by simp
next
  fix core :: "int \<Rightarrow> journey list" and startTime limit :: int
    and allowedTypes :: "string list option" and e eb
  assume g: "loopGuard startTime limit e" and eb: "eb = enumStep core startTime allowedTypes e"
  let ?rsm = "acceptBatch startTime allowedTypes e (core (t_cur e))"
  have len: "length (fst ?rsm) \<ge> length (e_results e)"
    and grow: "snd (snd ?rsm) \<noteq> - 1 \<Longrightarrow> length (fst ?rsm) > length (e_results e)"
    using acceptBatch_length [of "(e_results e, seen e, - 1)" startTime allowedTypes "core (t_cur e)"]
    by (simp_all add: acceptBatch_def)
  show "((core, startTime, limit, allowedTypes, fst eb), (core, startTime, limit, allowedTypes, e))
        \<in> measures [\<lambda>(core, startTime, limit, allowedTypes, e).
                       nat (limit - int (length (e_results e))),
                     \<lambda>(core, startTime, limit, allowedTypes, e).
                       nat (startTime + 14 * 3600 + 1 - t_cur e)]"
  proof (cases "snd (snd ?rsm) \<ge> 0")
    case True
    then have "length (fst ?rsm) > length (e_results e)" using grow by simp
    with True g show ?thesis
      by (simp add: eb enumStep_def Let_def loopGuard_def)
  next
    case False
    with len g show ?thesis
      by (auto simp: eb enumStep_def Let_def loopGuard_def)
  qed
qed

subsection \<open>Order and deduplication of the results\<close>

text \<open>
  The comparator of both sorts orders by transfers, then duration, then departure time;
  \<open>Array.prototype.sort\<close> is stable.
\<close>

definition paretoKey :: "journey \<Rightarrow> int \<times> int \<times> int" where
  "paretoKey j = (transfers j, duration j, j_dep_time j)"

definition cityKeyOfStop :: "engine \<Rightarrow> string \<Rightarrow> string" where
  "cityKeyOfStop eng stopId =
     (case find (\<lambda>s. stopId \<in> set (st_stopIds s)) (stopsIndex eng) of
        None \<Rightarrow> stopId
      | Some s \<Rightarrow>
          (let city = (if st_city s \<noteq> [] then st_city s else st_name s);
               country = (if st_country s \<noteq> [] then st_country s else ''FR'')
           in normalizeCity eng city @ '':'' @ country))"

text \<open>
  The key of the \<open>Map\<close> of the deduplication is the string
  \<open>j.dep_time + ':' + cityKey\<close>. The decimal form of a number holds no colon, so two such
  strings are equal exactly when the departure times and the city keys are; the model keeps
  the pair. Reading the last leg of a journey without legs raises a \<open>TypeError\<close>, which is
  \<open>None\<close>.
\<close>

definition dedupeKey :: "engine \<Rightarrow> journey \<Rightarrow> (int \<times> string) option" where
  "dedupeKey eng j =
     (case legs j of
        [] \<Rightarrow> None
      | l # ls \<Rightarrow> Some (j_dep_time j, cityKeyOfStop eng (to_id (last (l # ls)))))"

fun dedupeByArrCity ::
  "engine \<Rightarrow> ((int \<times> string) \<times> journey) list \<Rightarrow> journey list
     \<Rightarrow> ((int \<times> string) \<times> journey) list option" where
  "dedupeByArrCity eng m [] = Some m"
| "dedupeByArrCity eng m (j # js) =
     (case dedupeKey eng j of
        None \<Rightarrow> None
      | Some k \<Rightarrow>
          (case map_of m k of
             None \<Rightarrow> dedupeByArrCity eng (AList.update k j m) js
           | Some existing \<Rightarrow>
               if duration j < duration existing then dedupeByArrCity eng (AList.update k j m) js
               else dedupeByArrCity eng m js))"

text \<open>\<open>xs.slice(0, limit)\<close>\<close>

definition slice0 :: "int \<Rightarrow> 'a list \<Rightarrow> 'a list" where
  "slice0 limit xs =
     (if limit < 0 then take (nat (int (length xs) + limit)) xs else take (nat limit) xs)"

definition enumerateJourneys ::
  "engine \<Rightarrow> string list \<Rightarrow> string list \<Rightarrow> int \<Rightarrow> stop_to_trips \<Rightarrow> int \<Rightarrow> string
     \<Rightarrow> string list option \<Rightarrow> enum_state" where
  "enumerateJourneys eng originIds destIds startTime stopToTripsData limit dateISO allowedTypes =
     searchLoop (\<lambda>t. raptorCore eng originIds (Some destIds) t stopToTripsData dateISO)
       startTime limit allowedTypes
       \<lparr>e_results = [], seen = [], t_cur = startTime, noNewCount = 0\<rparr>"

definition finish :: "engine \<Rightarrow> int \<Rightarrow> journey list \<Rightarrow> journey list option" where
  "finish eng limit res =
     (case dedupeByArrCity eng [] (sort_key paretoKey res) of
        None \<Rightarrow> None
      | Some m \<Rightarrow> Some (slice0 limit (sort_key paretoKey (map snd m))))"

definition searchJourneys ::
  "engine \<Rightarrow> string list \<Rightarrow> string list \<Rightarrow> int \<Rightarrow> stop_to_trips \<Rightarrow> int \<Rightarrow> string
     \<Rightarrow> string list option \<Rightarrow> journey list option" where
  "searchJourneys eng originIds destIds startTime stopToTripsData limit dateISO allowedTypes =
     finish eng limit
       (e_results (enumerateJourneys eng originIds destIds startTime stopToTripsData limit dateISO
                     allowedTypes))"

subsection \<open>The search request (/api/search)\<close>

text \<open>
  The names of the properties of \<open>Object.prototype\<close>. For such a name that is no key of
  a plain object, \<open>obj[name]\<close> is an inherited function (or the prototype itself) and not
  \<open>undefined\<close>.
\<close>

definition objectPrototypeNames :: "string list" where
  "objectPrototypeNames =
     [''constructor'', ''__defineGetter__'', ''__defineSetter__'', ''hasOwnProperty'',
      ''__lookupGetter__'', ''__lookupSetter__'', ''isPrototypeOf'', ''propertyIsEnumerable'',
      ''toString'', ''valueOf'', ''__proto__'', ''toLocaleString'']"

text \<open>The index over all trips that \<open>initEngine\<close> builds once.\<close>

definition globalStopToTrips :: "engine \<Rightarrow> stop_to_trips" where
  "globalStopToTrips eng = buildStopToTrips (routeTrips eng)"

text \<open>
  \<open>getActiveServices\<close>: \<open>Some None\<close> is its result \<open>null\<close>. For a date that is no key
  of the calendar index and names an inherited property, \<open>calendarIndex[dateISO]\<close> is that
  property, it is not iterable, and \<open>new Set(s)\<close> raises a \<open>TypeError\<close>: the result
  \<open>None\<close>.
\<close>

definition getActiveServices :: "engine \<Rightarrow> string \<Rightarrow> string list option option" where
  "getActiveServices eng dateISO =
     (if dateISO = [] then Some None
      else (case calendarIndex eng dateISO of
              Some s \<Rightarrow> Some (Some s)
            | None \<Rightarrow> if dateISO \<in> set objectPrototypeNames then None else Some None))"

text \<open>
  \<open>getFilteredData\<close>; its cache of at most seven dates only saves recomputation. \<open>None\<close>
  is the \<open>TypeError\<close> of \<open>getActiveServices\<close>.
\<close>

definition getFilteredData :: "engine \<Rightarrow> string \<Rightarrow> stop_to_trips option" where
  "getFilteredData eng dateISO =
     (if dateISO = [] then Some (globalStopToTrips eng)
      else (case getActiveServices eng dateISO of
              None \<Rightarrow> None
            | Some None \<Rightarrow> Some (globalStopToTrips eng)
            | Some (Some active) \<Rightarrow>
                Some (buildStopToTrips
                        (filter (\<lambda>(rid, valid). valid \<noteq> [])
                           (map (\<lambda>(rid, trips).
                                   (rid, filter (\<lambda>t. service_id t \<in> set active) trips))
                              (routeTrips eng))))))"

definition endsWith :: "string \<Rightarrow> string \<Rightarrow> bool" where
  "endsWith s suffix =
     (length suffix \<le> length s \<and> drop (length s - length suffix) s = suffix)"

definition isDigit :: "char \<Rightarrow> bool" where
  "isDigit c = (c \<in> set ''0123456789'')"

text \<open>The match of \<open>/StopArea:OCE(\d{8})$/\<close>: the eight digits, if any.\<close>

definition areaMatch :: "string \<Rightarrow> string option" where
  "areaMatch sid =
     (let n = length sid; uic = drop (n - 8) sid
      in if n \<ge> 20 \<and> take 12 (drop (n - 20) sid) = ''StopArea:OCE'' \<and> list_all isDigit uic
         then Some uic else None)"

definition addArea :: "engine \<Rightarrow> string \<Rightarrow> string list \<Rightarrow> string list" where
  "addArea eng sid out =
     (case areaMatch sid of
        None \<Rightarrow> out
      | Some uic \<Rightarrow>
          foldl (\<lambda>out sid'. if endsWith sid' (''-'' @ uic) then setAdd sid' out else out) out
            (stopKeys eng))"

definition addSister :: "bool \<Rightarrow> string list \<Rightarrow> string \<Rightarrow> string list \<Rightarrow> entry \<Rightarrow> string list" where
  "addSister dest inputSet sid out e =
     (let sister = entry_id e
      in if dest \<and> (sister \<in> set inputSet \<or> interCity e
                     \<or> extractOperator sid \<noteq> extractOperator sister)
         then out else setAdd sister out)"

text \<open>
  For the name of an inherited property that is no key of the transfer index,
  \<open>transferIndex[stopId]\<close> is not \<open>undefined\<close>, it has no method \<open>map\<close>, and
  \<open>transferEntries\<close> raises a \<open>TypeError\<close>.
\<close>

definition raisesTypeError :: "engine \<Rightarrow> string \<Rightarrow> bool" where
  "raisesTypeError eng stopId =
     (transferIndex eng stopId = None \<and> stopId \<in> set objectPrototypeNames)"

text \<open>
  \<open>resolveStopIds\<close>; \<open>dest\<close> tells whether \<open>mode\<close> is \<open>'dest'\<close>, and \<open>None\<close> is
  the \<open>TypeError\<close> of \<open>transferEntries\<close> on one of the identifiers.
\<close>

definition resolveStopIds :: "engine \<Rightarrow> string list \<Rightarrow> bool \<Rightarrow> string list option" where
  "resolveStopIds eng ids dest =
     (if list_ex (raisesTypeError eng) ids then None
      else Some (foldl (\<lambda>out sid. foldl (addSister dest ids sid) (addArea eng sid out)
                                      (transferEntries eng sid))
                   (newSet ids) ids))"

text \<open>
  The parameters of a search request once the query string is read: the pieces of
  \<open>from\<close> and \<open>to\<close> between commas, \<open>timeToSeconds(time)\<close>, and the integers that
  \<open>parseInt\<close> returns for \<open>offset\<close>, \<open>after_dep\<close> and \<open>limit\<close>. A response is the
  status 400 or the status 200 with the journeys and \<open>last_dep_time\<close>; \<open>None\<close> is an
  exception that escapes the handler. The handler calls \<open>getFilteredData\<close> first, then
  \<open>resolveStopIds\<close> on the origins and on the destinations.
\<close>

record search_query =
  q_from :: "string list"
  q_to :: "string list"
  q_time :: int
  q_date :: string
  q_offset :: int
  q_after_dep :: int
  q_limit :: int
  q_train_types :: "string list option"

datatype response = BadRequest | SearchOk "journey list" int

definition apiSearch :: "engine \<Rightarrow> search_query \<Rightarrow> response option" where
  "apiSearch eng q =
     (let fromIds = filter (\<lambda>s. s \<noteq> []) (q_from q);
          toIds = filter (\<lambda>s. s \<noteq> []) (q_to q)
      in if fromIds = [] \<or> toIds = [] then Some BadRequest
         else
           (let limit = min (q_limit q) 32;
                startSec = max (q_time q + q_offset q) (q_after_dep q)
            in case getFilteredData eng (q_date q) of
                 None \<Rightarrow> None
               | Some stt \<Rightarrow>
                   (case resolveStopIds eng (newSet fromIds) False of
                      None \<Rightarrow> None
                    | Some uniqueFrom \<Rightarrow>
                        (case resolveStopIds eng (newSet toIds) True of
                           None \<Rightarrow> None
                         | Some uniqueTo \<Rightarrow>
                             (case searchJourneys eng uniqueFrom uniqueTo startSec stt limit
                                     (q_date q) (q_train_types q) of
                                None \<Rightarrow> None
                              | Some journeys \<Rightarrow>
                                  Some (SearchOk journeys
                                          (case journeys of
                                             [] \<Rightarrow> startSec
                                           | j # js \<Rightarrow>
                                               foldl max (j_dep_time j) (map j_dep_time js))))))))"

text \<open>
  A stop identifier is unknown to the timetable when it is no key of the stop dictionary
  or of the transfer index, no stop of any trip, and no \<open>StopArea\<close> alias of a stop of the
  dictionary.
\<close>

definition stopIdsOf :: "(string \<times> trip list) list \<Rightarrow> string list" where
  "stopIdsOf tripsData =
     concat (map (\<lambda>rt. concat (map (\<lambda>t. map stop_id (stop_times t)) (snd rt))) tripsData)"

definition unknownStop :: "engine \<Rightarrow> string \<Rightarrow> bool" where
  "unknownStop eng sid =
     (sid \<notin> set (stopKeys eng) \<and> transferIndex eng sid = None \<and> sid \<notin> set (stopIdsOf (routeTrips eng))
      \<and> (case areaMatch sid of
            None \<Rightarrow> True
          | Some uic \<Rightarrow> \<not> list_ex (\<lambda>sid'. endsWith sid' (''-'' @ uic)) (stopKeys eng)))"

section \<open>Predicates of the statements and example timetables\<close>

text \<open>
  The adjustment that the specification gives for the date of a query: 7200 seconds for a
  date whose month is between 4 and 9, 3600 seconds for any other date and for a query
  without date.
\<close>

definition seasonOffset :: "engine \<Rightarrow> string \<Rightarrow> int" where
  "seasonOffset eng dateISO =
     (if dateISO = [] then 3600
      else (case utcMonth eng dateISO of
              None \<Rightarrow> 3600
            | Some month \<Rightarrow> if 4 \<le> month \<and> month \<le> 9 then 7200 else 3600))"

text \<open>
  The scan of a trip as the specification describes it, for a trip whose times are read
  \<open>k\<close> seconds later than stored. Every time that enters the scan is a stored time plus
  \<open>k\<close>: the departure read at a stop is its stored departure time, or its stored
  arrival time when it has no departure time, plus \<open>k\<close>, and the arrival read is its
  stored arrival time, or its stored departure time when it has no arrival time, plus
  \<open>k\<close>. The trip is boarded at the first stop that is reached no later than the
  departure read there; at every later stop the arrival read is compared with the best
  arrival known, and an improvement records it in both arrival tables and, in the
  predecessor entry, with the departure read at the boarding stop.
\<close>

fun scanAdjusted ::
  "int \<Rightarrow> trip \<Rightarrow> string \<Rightarrow> stop_time list \<Rightarrow> (string \<times> int) option \<Rightarrow> scan_state
     \<Rightarrow> scan_state" where
  "scanAdjusted k trip routeId [] board s = s"
| "scanAdjusted k trip routeId (st # rest) None s =
     (case tauBest s (stop_id st) of
        None \<Rightarrow> scanAdjusted k trip routeId rest None s
      | Some tau \<Rightarrow>
          (case rawDep st of
             None \<Rightarrow> scanAdjusted k trip routeId rest None s
           | Some stored \<Rightarrow>
               if stored + k \<ge> tau then
                 scanAdjusted k trip routeId rest (Some (stop_id st, stored + k)) s
               else scanAdjusted k trip routeId rest None s))"
| "scanAdjusted k trip routeId (st # rest) (Some (boardStop, boardDep)) s =
     (case rawArr st of
        None \<Rightarrow> scanAdjusted k trip routeId rest (Some (boardStop, boardDep)) s
      | Some stored \<Rightarrow>
          if earlier (stored + k) (tauBest s (stop_id st)) then
            scanAdjusted k trip routeId rest (Some (boardStop, boardDep))
              \<lparr>tauBest = (tauBest s)(stop_id st \<mapsto> stored + k),
               tau_cur = AList.update (stop_id st) (stored + k) (tau_cur s),
               parent = AList.update (stop_id st)
                          (Ride boardStop (trip_id trip) routeId boardDep (stored + k)
                             (train_type trip) (operator trip))
                          (parent s)\<rparr>
          else scanAdjusted k trip routeId rest (Some (boardStop, boardDep)) s)"

text \<open>
  The tables of a search that has reached Milano at 12:00 and nothing else, and a timetable
  whose only trip is the Trenitalia trip that leaves Milano at 11:00 Italian time.
\<close>

definition noonAtMilano :: scan_state where
  "noonAtMilano = \<lparr>tauBest = [''TI:S01700'' \<mapsto> 43200], tau_cur = [], parent = []\<rparr>"

definition milanoEngine :: engine where
  "milanoEngine = emptyEngine\<lparr>routeTrips := [(''TI:r1'', [milanoTrip])]\<rparr>"

text \<open>
  The arrival and departure times along a trip, in the order in which the trip passes
  them: for each stop in turn its arrival time, then its departure time, a missing time
  being left out.
\<close>

definition timesAlong :: "'a stop_time_scheme list \<Rightarrow> int list" where
  "timesAlong stops =
     concat (map (\<lambda>s. (case arr_time s of None \<Rightarrow> [] | Some a \<Rightarrow> [a])
                      @ (case dep_time s of None \<Rightarrow> [] | Some d \<Rightarrow> [d])) stops)"

text \<open>
  The effect of the loop of \<open>scanTrip\<close> on the arrival table alone: \<open>boarded\<close> is the
  flag of the loop. The lemma \<open>scanStops_tauBest\<close> shows that this is what \<open>scanStops\<close>
  does to \<open>tauBest\<close>.
\<close>

fun scanTau ::
  "engine \<Rightarrow> trip \<Rightarrow> string \<Rightarrow> stop_time list \<Rightarrow> bool \<Rightarrow> (string \<rightharpoonup> int) \<Rightarrow> (string \<rightharpoonup> int)" where
  "scanTau eng trip dateISO [] boarded tau = tau"
| "scanTau eng trip dateISO (st # rest) False tau =
     (case tau (stop_id st) of
        None \<Rightarrow> scanTau eng trip dateISO rest False tau
      | Some t \<Rightarrow>
          (case depAt eng trip st dateISO of
             None \<Rightarrow> scanTau eng trip dateISO rest False tau
           | Some dep \<Rightarrow> scanTau eng trip dateISO rest (dep \<ge> t) tau))"
| "scanTau eng trip dateISO (st # rest) True tau =
     (case arrAt eng trip st dateISO of
        None \<Rightarrow> scanTau eng trip dateISO rest True tau
      | Some arr \<Rightarrow>
          scanTau eng trip dateISO rest True
            (if earlier arr (tau (stop_id st)) then tau(stop_id st \<mapsto> arr) else tau))"

text \<open>\<open>noLater a b\<close>: the arrival time \<open>a\<close> is at most \<open>b\<close>, an unreached stop being
  infinitely late (\<open>?? Infinity\<close>).\<close>

definition noLater :: "int option \<Rightarrow> int option \<Rightarrow> bool" where
  "noLater a b =
     (case b of None \<Rightarrow> True | Some y \<Rightarrow> (case a of None \<Rightarrow> False | Some x \<Rightarrow> x \<le> y))"

definition tableNoLater :: "(string \<rightharpoonup> int) \<Rightarrow> (string \<rightharpoonup> int) \<Rightarrow> bool" where
  "tableNoLater tau tau' = (\<forall>sid. noLater (tau sid) (tau' sid))"

text \<open>The shape of the journeys that \<open>reconstructJourney\<close> returns.\<close>

definition reconstructed :: "journey \<Rightarrow> bool" where
  "reconstructed j =
     (legs j \<noteq> []
      \<and> train_types j = newSet (filter (\<lambda>t. t \<noteq> []) (map leg_train_type (legs j)))
      \<and> transfers j = int (length (legs j)) - 1)"


definition mkTrip :: "string \<Rightarrow> string \<Rightarrow> string \<Rightarrow> (string \<times> int) list \<Rightarrow> trip" where
  "mkTrip tripId trainType op stops =
     \<lparr>trip_id = tripId, service_id = op @ '':daily'', train_type = trainType, operator = op,
      stop_times = map (\<lambda>st. \<lparr>stop_id = fst st, arr_time = Some (snd st),
                               dep_time = Some (snd st)\<rparr>) stops\<rparr>"

text \<open>
  A high-speed trip from Paris to Lyon at 07:00 and a regional trip from Lyon to Grenoble
  at 09:20.
\<close>

definition twoLegTrips :: "(string \<times> trip list) list" where
  "twoLegTrips =
     [(''SNCF:r1'', [mkTrip ''SNCF:6601'' ''INOUI'' ''SNCF''
                       [(''SNCF:paris'', 25200), (''SNCF:lyon'', 32400)]]),
      (''SNCF:r2'', [mkTrip ''SNCF:17601'' ''TER'' ''SNCF''
                       [(''SNCF:lyon'', 33600), (''SNCF:grenoble'', 38400)]])]"

definition twoLegEngine :: engine where
  "twoLegEngine =
     emptyEngine\<lparr>stopKeys := [''SNCF:paris'', ''SNCF:lyon'', ''SNCF:grenoble''],
                  routeTrips := twoLegTrips\<rparr>"

definition twoLegJourney :: journey where
  "twoLegJourney =
     \<lparr>j_dep_time = 25200, j_arr_time = 38400, duration = 220, transfers = 1,
      train_types = [''INOUI'', ''TER''],
      legs = [\<lparr>from_id = ''SNCF:paris'', to_id = ''SNCF:lyon'', leg_dep_time = 25200,
               leg_arr_time = 32400, leg_trip_id = ''SNCF:6601'', leg_route_id = ''SNCF:r1'',
               leg_operator = ''SNCF'', leg_train_type = ''INOUI'', leg_duration = 120\<rparr>,
              \<lparr>from_id = ''SNCF:lyon'', to_id = ''SNCF:grenoble'', leg_dep_time = 33600,
               leg_arr_time = 38400, leg_trip_id = ''SNCF:17601'', leg_route_id = ''SNCF:r2'',
               leg_operator = ''SNCF'', leg_train_type = ''TER'', leg_duration = 80\<rparr>]\<rparr>"

definition startState :: "int \<Rightarrow> enum_state" where
  "startState startTime = \<lparr>e_results = [], seen = [], t_cur = startTime, noNewCount = 0\<rparr>"

text \<open>
  The state of the enumeration over these two trips, started at 06:00, once the journey is
  collected and three advances have found nothing new.
\<close>

definition waitingState :: enum_state where
  "waitingState =
     \<lparr>e_results = [twoLegJourney], seen = [''SNCF:6601|SNCF:17601''], t_cur = 30601,
      noNewCount = 3\<rparr>"

text \<open>A trip that leaves Paris one hour before midnight, stored with a negative time.\<close>

definition nightTrips :: "(string \<times> trip list) list" where
  "nightTrips =
     [(''SNCF:r9'', [mkTrip ''SNCF:9001'' ''TER'' ''SNCF''
                       [(''SNCF:paris'', - 3600), (''SNCF:lyon'', 1800)]])]"




text \<open>
  An origin \<open>SNCF:gare-a\<close> whose only transfer neighbour \<open>SNCF:gare-b\<close> is another station
  of the same city (inter-city edge), and a trip that leaves from the neighbour.
\<close>

definition metroEngine :: engine where
  "metroEngine =
     emptyEngine\<lparr>transferIndex := [''SNCF:gare-a'' \<mapsto> [Tagged ''SNCF:gare-b'' True]],
                  routeTrips := [(''SNCF:r1'', [mkTrip ''SNCF:840'' ''TER'' ''SNCF''
                                   [(''SNCF:gare-b'', 5000), (''SNCF:lille'', 6000)]])]\<rparr>"

text \<open>
  The same two stations with a sibling stop \<open>SNCF:gare-c\<close> of the neighbour, a trip from
  the origin to the neighbour and a later, slower trip from the origin to the sibling stop.
\<close>

definition siblingEngine :: engine where
  "siblingEngine =
     emptyEngine\<lparr>transferIndex := [''SNCF:gare-a'' \<mapsto> [Tagged ''SNCF:gare-b'' True],
                                    ''SNCF:gare-b'' \<mapsto> [Plain ''SNCF:gare-c'']],
                  routeTrips := [(''SNCF:r1'', [mkTrip ''SNCF:101'' ''TER'' ''SNCF''
                                   [(''SNCF:gare-a'', 3000), (''SNCF:gare-b'', 3100)]]),
                                 (''SNCF:r2'', [mkTrip ''SNCF:202'' ''TER'' ''SNCF''
                                   [(''SNCF:gare-a'', 4000), (''SNCF:gare-c'', 5000)]])]\<rparr>"

text \<open>
  A stop of the operator OUIGO_ES and a stop of SNCF in the same station, linked in the
  transfer index by a plain edge (not tagged inter-city).
\<close>

definition ouigoEngine :: engine where
  "ouigoEngine =
     emptyEngine\<lparr>transferIndex := [''OUIGO_ES:1'' \<mapsto> [Plain ''SNCF:2''],
                                    ''SNCF:2'' \<mapsto> [Plain ''OUIGO_ES:1'']]\<rparr>"

definition inheritedNameQuery :: search_query where
  "inheritedNameQuery =
     \<lparr>q_from = [''constructor''], q_to = [''TI:eldorado''], q_time = 28800,
      q_date = ''2025-01-10'', q_offset = 0, q_after_dep = 0, q_limit = 8,
      q_train_types = None\<rparr>"

definition unknownQuery :: search_query where
  "unknownQuery =
     \<lparr>q_from = [''SNCF:atlantis''], q_to = [''TI:eldorado'', ''''], q_time = 28800,
      q_date = ''2025-01-10'', q_offset = 0, q_after_dep = 0, q_limit = 8,
      q_train_types = None\<rparr>"

section \<open>Transfer times\<close>

lemma isCapital_colon: "\<not> isCapital (CHR '':'')"
  by (simp add: isCapital_def)

lemma extractOperator_capitalPrefix:
  assumes "capitalPrefix sid"
  shows "operatorPrefix sid = Some (extractOperator sid)"
proof -
  let ?p = "takeWhile (\<lambda>c. c \<noteq> CHR '':'') sid"
  let ?r = "dropWhile (\<lambda>c. c \<noteq> CHR '':'') sid"
  from assms have colon: "CHR '':'' \<in> set sid" and ne: "?p \<noteq> []" and cap: "list_all isCapital ?p"
    by (auto simp: capitalPrefix_def operatorPrefix_def split: if_splits)
  from colon have "?r \<noteq> []" by (simp add: dropWhile_eq_Nil_conv)
  then obtain r' where r: "?r = CHR '':'' # r'"
    using hd_dropWhile [of "\<lambda>c. c \<noteq> CHR '':''" sid] by (cases ?r) auto
  have sid: "sid = ?p @ CHR '':'' # r'"
    using takeWhile_dropWhile_id [of "\<lambda>c. c \<noteq> CHR '':''" sid] r by simp
  have all: "\<forall>c\<in>set ?p. isCapital c"
    using cap by (simp add: list_all_iff)
  have tw: "takeWhile isCapital (?p @ CHR '':'' # r') = ?p"
    using all by (simp add: takeWhile_append2 isCapital_colon)
  have dw: "dropWhile isCapital (?p @ CHR '':'' # r') = CHR '':'' # r'"
    using all by (simp add: dropWhile_append2 isCapital_colon)
  have "extractOperator (?p @ CHR '':'' # r') = ?p"
    unfolding extractOperator_def tw dw using ne by simp
  with sid have "extractOperator sid = ?p" by simp
  with colon show ?thesis by (simp add: operatorPrefix_def)
qed

lemma extractOperator_match:
  assumes "extractOperator sid \<noteq> ''SNCF''"
  shows "capitalPrefix sid"
proof -
  let ?m = "takeWhile isCapital sid"
  let ?d = "dropWhile isCapital sid"
  from assms have m: "?m \<noteq> []" and c: "take 1 ?d = '':''"
    by (auto simp: extractOperator_def Let_def split: if_splits)
  from c obtain r where d: "?d = CHR '':'' # r" by (cases ?d) auto
  have sid: "sid = ?m @ CHR '':'' # r"
    using takeWhile_dropWhile_id [of isCapital sid] d by simp
  have nocolon: "\<forall>c \<in> set ?m. c \<noteq> CHR '':''"
    using isCapital_colon by (auto dest: set_takeWhileD)
  have "takeWhile (\<lambda>c. c \<noteq> CHR '':'') (?m @ CHR '':'' # r) = ?m"
    using nocolon by (simp add: takeWhile_append2)
  with sid have p: "takeWhile (\<lambda>c. c \<noteq> CHR '':'') sid = ?m" by simp
  have "CHR '':'' \<in> set sid" by (subst sid) simp
  moreover have "list_all isCapital ?m"
    by (auto simp: list_all_iff dest: set_takeWhileD)
  ultimately show ?thesis using m p by (simp add: capitalPrefix_def operatorPrefix_def)
qed

text \<open>
  The operator that \<open>extractOperator\<close> reads from an identifier is its operator prefix
  when the prefix is a non-empty run of capital letters, and SNCF in every other case.
\<close>

lemma extractOperator_reads:
  "extractOperator sid =
     (case operatorPrefix sid of
        None \<Rightarrow> ''SNCF''
      | Some p \<Rightarrow> if p \<noteq> [] \<and> list_all isCapital p then p else ''SNCF'')"
proof (cases "capitalPrefix sid")
  case True
  from extractOperator_capitalPrefix [OF True] True show ?thesis
    by (simp add: capitalPrefix_def)
next
  case False
  with extractOperator_match [of sid] have "extractOperator sid = ''SNCF''" by blast
  with False show ?thesis
    by (auto simp: capitalPrefix_def split: option.splits)
qed

text \<open>
  Where the code follows the categories of the specification: an edge tagged inter-city
  costs 2700 seconds whatever its endpoints; an edge that is not tagged inter-city and
  whose two endpoint identifiers both start with an operator prefix made of capital letters
  costs 180 seconds when the two prefixes are equal and 600 seconds when they differ.
\<close>

lemma transferTime_capital_prefixes:
  "(interCity e \<longrightarrow> transferTime fromId e = 2700)
   \<and> (\<not> interCity e \<and> capitalPrefix fromId \<and> capitalPrefix (entry_id e) \<longrightarrow>
        transferTime fromId e =
          (if operatorPrefix fromId = operatorPrefix (entry_id e) then 180 else 600))"
proof (intro conjI impI)
  assume "interCity e"
  then show "transferTime fromId e = 2700"
    by (simp add: transferTime_def MIN_TRANSFER_CITY_def)
next
  assume h: "\<not> interCity e \<and> capitalPrefix fromId \<and> capitalPrefix (entry_id e)"
  then have a: "operatorPrefix fromId = Some (extractOperator fromId)"
    and b: "operatorPrefix (entry_id e) = Some (extractOperator (entry_id e))"
    by (simp_all add: extractOperator_capitalPrefix)
  from h show "transferTime fromId e =
      (if operatorPrefix fromId = operatorPrefix (entry_id e) then 180 else 600)"
    unfolding a b
    by (simp add: transferTime_def MIN_TRANSFER_SAME_def MIN_TRANSFER_CROSS_def)
qed

lemma transferTime_examples:
  "transferTime ''SNCF:a'' \<lparr>entry_id = ''ES:b'', interCity = True\<rparr> = 2700
   \<and> transferTime ''SNCF:a'' \<lparr>entry_id = ''SNCF:b'', interCity = False\<rparr> = 180
   \<and> transferTime ''SNCF:a'' \<lparr>entry_id = ''TI:b'', interCity = False\<rparr> = 600"
  by (simp add: transferTime_def extractOperator_def isCapital_def MIN_TRANSFER_CITY_def
      MIN_TRANSFER_SAME_def MIN_TRANSFER_CROSS_def)

text \<open>
  Claim C3 at a concrete input: the edge, not tagged inter-city, between the stop
  \<open>OUIGO_ES:1\<close> of the operator OUIGO_ES and the stop \<open>SNCF:2\<close> of SNCF. The two
  operator prefixes differ, so the claim gives 600 seconds, the value that the constant
  \<open>MIN_TRANSFER_CROSS\<close> holds for a transfer between operators. The pattern
  \<open>/^([A-Z]+):/\<close> of \<open>extractOperator\<close> does not match a prefix with an underscore:
  the stop of OUIGO_ES is read as a stop of SNCF, and the edge costs the 180 seconds of a
  transfer within one operator, in both directions and when the search relaxes it from
  the origin.
\<close>

theorem transferTime_ouigo_es:
  "operatorPrefix ''OUIGO_ES:1'' = Some ''OUIGO_ES''
   \<and> operatorPrefix ''SNCF:2'' = Some ''SNCF''
   \<and> extractOperator ''OUIGO_ES:1'' = ''SNCF''
   \<and> transferTime ''OUIGO_ES:1'' \<lparr>entry_id = ''SNCF:2'', interCity = False\<rparr> = 180
   \<and> transferTime ''SNCF:2'' \<lparr>entry_id = ''OUIGO_ES:1'', interCity = False\<rparr> = 180
   \<and> MIN_TRANSFER_CROSS = 600
   \<and> tau_best (initCore ouigoEngine [''OUIGO_ES:1''] 28800) ''SNCF:2'' = Some (28800 + 180)"
  by code_simp

section \<open>Time-zone adjustment\<close>

text \<open>
  The two reads of the scan on a trip whose operator is TI: the stored value plus the
  adjustment of the date.
\<close>

lemma ti_reads:
  assumes "operator trip = ''TI''"
  shows "depAt eng trip st dateISO = map_option (\<lambda>t. t + seasonOffset eng dateISO) (rawDep st)"
    and "arrAt eng trip st dateISO = map_option (\<lambda>t. t + seasonOffset eng dateISO) (rawArr st)"
  using assms
  by (auto simp: depAt_def arrAt_def tiAdjust_def seasonOffset_def split: option.splits)

lemma scanStops_adjusted:
  assumes "operator trip = ''TI''"
  shows "scanStops eng trip routeId dateISO sts board s
           = scanAdjusted (seasonOffset eng dateISO) trip routeId sts board s"
proof (induction sts arbitrary: board s)
  case Nil
  show ?case by simp
next
  case (Cons st rest)
  show ?case
  proof (cases board)
    case None
    then show ?thesis
      by (simp add: ti_reads [OF assms] Cons.IH split: option.splits)
  next
    case (Some b)
    then obtain boardStop boardDep where b: "board = Some (boardStop, boardDep)"
      by (cases b) auto
    show ?thesis
      unfolding b by (simp add: ti_reads [OF assms] Cons.IH split: option.splits)
  qed
qed

text \<open>
  Claim C2: the scan of a trip whose operator is TI is the scan in which every departure
  and every arrival time read is the stored value plus 7200 seconds when the query has a
  date whose month is between 4 and 9, plus 3600 seconds when it has a date with another
  month (or a date the runtime cannot read), and plus 3600 seconds when the query has no
  date: the comparisons of the scan and the times it writes into the arrival tables and
  into the predecessor entries all use the adjusted values. The stored stop times are not
  modified: the scan returns the tables only, and a scan of the same trip that follows,
  from any stop, on any date, again reads the stored values plus the adjustment of its own
  date.
\<close>

theorem ti_scan_reads_adjusted:
  assumes "operator trip = ''TI''"
  shows "scanTrip eng trip fromIdx s routeId dateISO
           = scanAdjusted (seasonOffset eng dateISO) trip routeId
               (drop fromIdx (stop_times trip)) None s
       \<and> scanTrip eng trip fromIdx' (scanTrip eng trip fromIdx s routeId dateISO) routeId' dateISO'
           = scanAdjusted (seasonOffset eng dateISO') trip routeId'
               (drop fromIdx' (stop_times trip)) None
               (scanAdjusted (seasonOffset eng dateISO) trip routeId
                  (drop fromIdx (stop_times trip)) None s)"
  by (simp add: scanTrip_def scanStops_adjusted [OF assms])

text \<open>
  The example of the specification: the trip stored with the departure 39600 from Milano,
  boarded by a search that has reached Milano at 43200. On 2025-06-15 the scan writes the
  departure 46800 and the arrival 72000; a scan of the same trip that follows on 2025-11-15
  writes 43200 and 68400, the stored times plus 3600; so does a scan without date. The
  journeys that the core returns carry the same times.
\<close>

theorem ti_scan_reads_adjusted_witness:
  "operator milanoTrip = ''TI''
   \<and> stop_times milanoTrip
       = [\<lparr>stop_id = ''TI:S01700'', arr_time = None, dep_time = Some 39600\<rparr>,
          \<lparr>stop_id = ''TI:S99999'', arr_time = Some 64800, dep_time = None\<rparr>]
   \<and> scanTrip emptyEngine milanoTrip 0 noonAtMilano ''TI:r1'' ''2025-06-15''
       = \<lparr>tauBest = [''TI:S01700'' \<mapsto> 43200, ''TI:S99999'' \<mapsto> 64800 + 7200],
          tau_cur = [(''TI:S99999'', 64800 + 7200)],
          parent = [(''TI:S99999'',
                     Ride ''TI:S01700'' ''TI:9292'' ''TI:r1'' (39600 + 7200) (64800 + 7200)
                       ''FRECCIAROSSA'' ''TI'')]\<rparr>
   \<and> scanTrip emptyEngine milanoTrip 0
        (scanTrip emptyEngine milanoTrip 0 noonAtMilano ''TI:r1'' ''2025-06-15'')
        ''TI:r1'' ''2025-11-15''
       = \<lparr>tauBest = [''TI:S01700'' \<mapsto> 43200, ''TI:S99999'' \<mapsto> 64800 + 3600],
          tau_cur = [(''TI:S99999'', 64800 + 3600)],
          parent = [(''TI:S99999'',
                     Ride ''TI:S01700'' ''TI:9292'' ''TI:r1'' (39600 + 3600) (64800 + 3600)
                       ''FRECCIAROSSA'' ''TI'')]\<rparr>
   \<and> map_of (parent (scanTrip emptyEngine milanoTrip 0 noonAtMilano ''TI:r1'' []))
        ''TI:S99999''
       = Some (Ride ''TI:S01700'' ''TI:9292'' ''TI:r1'' (39600 + 3600) (64800 + 3600)
                 ''FRECCIAROSSA'' ''TI'')
   \<and> map (\<lambda>j. (j_dep_time j, j_arr_time j))
        (raptorCore milanoEngine [''TI:S01700''] (Some [''TI:S99999'']) 43200
           (globalStopToTrips milanoEngine) ''2025-06-15'') = [(46800, 72000)]
   \<and> map (\<lambda>j. (j_dep_time j, j_arr_time j))
        (raptorCore milanoEngine [''TI:S01700''] (Some [''TI:S99999'']) 43200
           (globalStopToTrips milanoEngine) ''2025-11-15'') = [(43200, 68400)]"
proof -
  have ti: "operator milanoTrip = ''TI''"
    by (simp add: milanoTrip_def)
  have off: "seasonOffset emptyEngine ''2025-06-15'' = 7200"
    "seasonOffset emptyEngine ''2025-11-15'' = 3600"
    "seasonOffset emptyEngine [] = 3600"
    by (simp_all add: seasonOffset_def emptyEngine_def isoMonth_def digitOf_def)
  have sts: "stop_times milanoTrip
       = [\<lparr>stop_id = ''TI:S01700'', arr_time = None, dep_time = Some 39600\<rparr>,
          \<lparr>stop_id = ''TI:S99999'', arr_time = Some 64800, dep_time = None\<rparr>]"
    "trip_id milanoTrip = ''TI:9292''" "train_type milanoTrip = ''FRECCIAROSSA''"
    by (simp_all add: milanoTrip_def)
  note june = ti_scan_reads_adjusted [OF ti, of emptyEngine 0 noonAtMilano "''TI:r1''"
      "''2025-06-15''" 0 "''TI:r1''" "''2025-11-15''"]
  note none = ti_scan_reads_adjusted [OF ti, of emptyEngine 0 noonAtMilano "''TI:r1''" "[]"
      0 "''TI:r1''" "[]"]
  have a: "scanTrip emptyEngine milanoTrip 0 noonAtMilano ''TI:r1'' ''2025-06-15''
       = \<lparr>tauBest = [''TI:S01700'' \<mapsto> 43200, ''TI:S99999'' \<mapsto> 64800 + 7200],
          tau_cur = [(''TI:S99999'', 64800 + 7200)],
          parent = [(''TI:S99999'',
                     Ride ''TI:S01700'' ''TI:9292'' ''TI:r1'' (39600 + 7200) (64800 + 7200)
                       ''FRECCIAROSSA'' ''TI'')]\<rparr>"
    unfolding june [THEN conjunct1]
    by (simp add: off sts ti noonAtMilano_def rawDep_def rawArr_def earlier_def)
  have b: "scanTrip emptyEngine milanoTrip 0
        (scanTrip emptyEngine milanoTrip 0 noonAtMilano ''TI:r1'' ''2025-06-15'')
        ''TI:r1'' ''2025-11-15''
       = \<lparr>tauBest = [''TI:S01700'' \<mapsto> 43200, ''TI:S99999'' \<mapsto> 64800 + 3600],
          tau_cur = [(''TI:S99999'', 64800 + 3600)],
          parent = [(''TI:S99999'',
                     Ride ''TI:S01700'' ''TI:9292'' ''TI:r1'' (39600 + 3600) (64800 + 3600)
                       ''FRECCIAROSSA'' ''TI'')]\<rparr>"
    unfolding june [THEN conjunct2]
    by (simp add: off sts ti noonAtMilano_def rawDep_def rawArr_def earlier_def)
  have c: "map_of (parent (scanTrip emptyEngine milanoTrip 0 noonAtMilano ''TI:r1'' []))
        ''TI:S99999''
       = Some (Ride ''TI:S01700'' ''TI:9292'' ''TI:r1'' (39600 + 3600) (64800 + 3600)
                 ''FRECCIAROSSA'' ''TI'')"
    unfolding none [THEN conjunct1]
    by (simp add: off sts ti noonAtMilano_def rawDep_def rawArr_def earlier_def)
  have d: "map (\<lambda>j. (j_dep_time j, j_arr_time j))
        (raptorCore milanoEngine [''TI:S01700''] (Some [''TI:S99999'']) 43200
           (globalStopToTrips milanoEngine) ''2025-06-15'') = [(46800, 72000)]"
    by code_simp
  have e: "map (\<lambda>j. (j_dep_time j, j_arr_time j))
        (raptorCore milanoEngine [''TI:S01700''] (Some [''TI:S99999'']) 43200
           (globalStopToTrips milanoEngine) ''2025-11-15'') = [(43200, 68400)]"
    by code_simp
  from ti sts(1) a b c d e show ?thesis by (simp only: simp_thms)
qed

section \<open>Repair of circular trips\<close>

text \<open>
  The segments cut from a trip with a stop are never empty, and a trip with no stop gives
  one segment only, so the comparator of the segments and the merge read real stops.
\<close>

lemma cutSegments_nonempty: "seg \<noteq> [] \<Longrightarrow> [] \<notin> set (cutSegments prev seg rest)"
  by (induction rest arbitrary: prev seg) auto

lemma segmentsOf_nonempty: "length (segmentsOf stops) > 1 \<Longrightarrow> [] \<notin> set (segmentsOf stops)"
  by (cases stops) (simp_all add: segmentsOf_def cutSegments_nonempty)

lemma mergeSegs_returns:
  "cur \<noteq> [] \<Longrightarrow> [] \<notin> set segs \<Longrightarrow>
   \<exists>merged. mergeSegs done cur segs = Some merged \<and> merged \<noteq> []"
proof (induction segs arbitrary: "done" cur)
  case Nil
  then show ?case by simp
next
  case (Cons seg segs)
  from Cons.prems obtain lastStop before where l: "rev cur = lastStop # before"
    by (cases "rev cur") auto
  from Cons.prems obtain firstStop after where f: "seg = firstStop # after"
    by (cases seg) auto
  show ?case
  proof (cases "compatible lastStop firstStop")
    case True
    with l f Cons.IH [of "cur @ seg" "done"] Cons.prems show ?thesis by simp
  next
    case False
    with l f Cons.IH [of seg "done @ [cur]"] Cons.prems show ?thesis by simp
  qed
qed

lemma sort_key_Nil: "(sort_key f xs = []) = (xs = [])"
  by (metis length_sort length_0_conv)

text \<open>The groups of the merge hold the stops of the segments, and none of them is empty.\<close>

lemma cutSegments_concat: "concat (cutSegments prev seg rest) = seg @ rest"
  by (induction rest arbitrary: prev seg) auto

lemma segmentsOf_concat: "concat (segmentsOf stops) = stops"
  by (cases stops) (simp_all add: segmentsOf_def cutSegments_concat)

lemma mergeSegs_concat:
  "mergeSegs done cur segs = Some merged \<Longrightarrow> concat merged = concat done @ cur @ concat segs"
proof (induction segs arbitrary: "done" cur)
  case Nil
  then show ?case by auto
next
  case (Cons seg segs)
  from Cons.prems obtain lastStop before firstStop after
    where l: "rev cur = lastStop # before" and f: "seg = firstStop # after"
    by (auto split: list.splits)
  show ?case
  proof (cases "compatible lastStop firstStop")
    case True
    with l f Cons.prems have "mergeSegs done (cur @ seg) segs = Some merged" by simp
    from Cons.IH [OF this] show ?thesis by simp
  next
    case False
    with l f Cons.prems have "mergeSegs (done @ [cur]) seg segs = Some merged" by simp
    from Cons.IH [OF this] show ?thesis by simp
  qed
qed

lemma mergeSegs_groups:
  "mergeSegs done cur segs = Some merged \<Longrightarrow> cur \<noteq> [] \<Longrightarrow> [] \<notin> set done \<Longrightarrow>
   [] \<notin> set merged"
proof (induction segs arbitrary: "done" cur)
  case Nil
  then show ?case by auto
next
  case (Cons seg segs)
  from Cons.prems(1) obtain lastStop before firstStop after
    where l: "rev cur = lastStop # before" and f: "seg = firstStop # after"
    by (auto split: list.splits)
  show ?case
  proof (cases "compatible lastStop firstStop")
    case True
    with l f Cons.prems have "mergeSegs done (cur @ seg) segs = Some merged" by simp
    from Cons.IH [OF this] Cons.prems show ?thesis by simp
  next
    case False
    with l f Cons.prems have "mergeSegs (done @ [cur]) seg segs = Some merged" by simp
    from Cons.IH [OF this] Cons.prems f show ?thesis by simp
  qed
qed

lemma repairTrip_rotation:
  "map_option (map seq) (repairTrip rotation) = Some [39, 90, 5, 24, 38]"
  by (simp add: repairTrip_def rotation_def segmentsOf_def backwardJump_def segmentStart_def
      timeKey_def compatible_def)

text \<open>
  Claim C4, as stated, fails: the arrival and departure times along a repaired trip can go
  backward. The first trip is cut between its two stops (Torino is listed at 37000, more
  than 600 seconds before the departure from Milano at 43200); the segments are put in the
  order of their first departures and merged, the merge comparing the arrival at Torino
  with the departure from Milano; the last sort orders the stops by departure time. The
  repaired trip leaves Torino at 37300 and then arrives at Milano at 36000. The second trip
  is not cut, a step backward of at most 600 seconds being accepted: it leaves Torino at
  36000 and arrives at Milano at 35700.
\<close>

theorem repairTrip_times_counterexample:
  "map_option (map stop_id) (repairTrip longDwell) = Some [''TI:torino'', ''TI:milano'']
   \<and> map_option timesAlong (repairTrip longDwell) = Some [37000, 37300, 36000, 43200]
   \<and> \<not> sorted [37000, 37300, 36000, 43200 :: int]
   \<and> map_option timesAlong (repairTrip earlyArrival) = Some [36000, 36000, 35700, 36600]
   \<and> \<not> sorted [36000, 36000, 35700, 36600 :: int]"
  by (simp add: repairTrip_def longDwell_def earlyArrival_def segmentsOf_def backwardJump_def
      segmentStart_def timeKey_def compatible_def timesAlong_def)

text \<open>
  Claim C4, amended: the repair of a trip (sort by sequence, cut at every backward jump of
  more than 600 seconds, sort the segments by their first time, concatenate the compatible
  ones, keep the longest group, sort it by time) always produces a stop-time list; the list
  is made of stops of the trip and is empty only for a trip without stops; and it is
  non-decreasing in the time by which the last sort orders the stops: the departure time of
  a stop, its arrival time when it has no departure time, and 0 when it has neither.
\<close>

theorem repairTrip_sorted:
  "\<exists>kept. repairTrip stops = Some kept \<and> sorted (map timeKey kept)
      \<and> set kept \<subseteq> set stops \<and> (kept = [] \<longleftrightarrow> stops = [])"
proof (cases "length (segmentsOf (sort_key seq stops)) > 1")
  case False
  then show ?thesis by (simp add: repairTrip_def Let_def sort_key_Nil)
next
  case True
  let ?segments = "segmentsOf (sort_key seq stops)"
  from True have ne: "[] \<notin> set ?segments" by (rule segmentsOf_nonempty)
  from True have "sort_key segmentStart ?segments \<noteq> []"
    by (metis length_sort list.size(3) not_less_zero)
  then obtain first others where fo: "sort_key segmentStart ?segments = first # others"
    by (cases "sort_key segmentStart ?segments") auto
  have sets: "set (first # others) = set ?segments"
    using fo [symmetric] by simp
  with ne have first: "first \<noteq> []" "[] \<notin> set others" by auto
  from mergeSegs_returns [OF this, of "[]"] obtain merged
    where m: "mergeSegs [] first others = Some merged" "merged \<noteq> []" by blast
  from m(2) have "sort_key (\<lambda>g. - int (length g)) merged \<noteq> []"
    by (simp add: sort_key_Nil)
  then obtain longest shorter
    where lo: "sort_key (\<lambda>g. - int (length g)) merged = longest # shorter"
    by (cases "sort_key (\<lambda>g. - int (length g)) merged") auto
  from True ne fo m(1) lo have kept: "repairTrip stops = Some (sort_key timeKey longest)"
    by (simp add: repairTrip_def Let_def)
  have "longest \<in> set (sort_key (\<lambda>g. - int (length g)) merged)" using lo by simp
  then have mem: "longest \<in> set merged" by simp
  with mergeSegs_groups [OF m(1) first(1)] have nonempty: "longest \<noteq> []" by auto
  have "set (concat merged) = set (concat (first # others))"
    using mergeSegs_concat [OF m(1)] by simp
  also have "\<dots> = \<Union> (set ` set ?segments)"
    using sets by (simp only: set_concat)
  also have "\<dots> = set (concat ?segments)" by simp
  also have "\<dots> = set stops" by (simp add: segmentsOf_concat)
  finally have "set (concat merged) = set stops" .
  with mem have sub: "set longest \<subseteq> set stops" by auto
  from sub nonempty have "stops \<noteq> []" by auto
  with kept sub nonempty show ?thesis by (simp add: sort_key_Nil)
qed

section \<open>Symmetry of the transfer index\<close>

lemma listOf_ensureList: "listOf (ensureList T a) x = listOf T x"
  by (cases "T a") (simp_all add: listOf_def ensureList_def)

lemma links_ensureList: "links (ensureList T a) x = links T x"
  by (simp add: links_def listOf_ensureList)

lemma listOf_upd: "listOf (T(a \<mapsto> l)) x = (if x = a then l else listOf T x)"
  by (simp add: listOf_def)


lemma links_pushNew: "links (pushNew T a b) x = (if x = a then insert b (links T a) else links T x)"
proof (cases "b \<in> set (listOf T a)")
  case True
  then show ?thesis by (auto simp: pushNew_def links_def)
next
  case False
  then show ?thesis by (simp add: pushNew_def links_def listOf_upd)
qed

lemma links_linkBoth:
  "links (linkBoth T a b) x =
     links T x \<union> (if x = a then {b} else {}) \<union> (if x = b then {a} else {})"
  by (auto simp: linkBoth_def links_pushNew links_ensureList)

lemma symmetric_linkBoth: "symmetric T \<Longrightarrow> symmetric (linkBoth T a b)"
  unfolding symmetric_def links_linkBoth by auto

lemma symmetric_row:
  "symmetric T \<Longrightarrow> symmetric (foldl (\<lambda>T b. if near a b then linkBoth T a b else T) T rest)"
  by (induction rest arbitrary: T) (auto simp: symmetric_linkBoth)

lemma symmetric_gpsPairs: "symmetric T \<Longrightarrow> symmetric (gpsPairs near T ids)"
  by (induction ids arbitrary: T) (auto simp: symmetric_row)

lemma links_manual_inner:
  "links (foldl (\<lambda>T idB. if idA \<noteq> idB \<and> idB \<in> set ids then pushNew T idA idB else T) T bs) x =
     links T x \<union> (if x = idA then {b \<in> set bs. b \<noteq> idA \<and> b \<in> set ids} else {})"
  by (induction bs arbitrary: T) (auto simp: links_pushNew)

lemma links_manualFrom:
  "links (manualFrom ids stopIds T idA) x =
     links T x \<union> (if x = idA \<and> idA \<in> set ids then {b \<in> set stopIds. b \<noteq> idA \<and> b \<in> set ids} else {})"
  by (auto simp: manualFrom_def links_manual_inner links_ensureList)

lemma links_manual_outer:
  "links (foldl (manualFrom ids stopIds) T as) x =
     links T x \<union> (if x \<in> set as \<and> x \<in> set ids then {b \<in> set stopIds. b \<noteq> x \<and> b \<in> set ids} else {})"
  by (induction as arbitrary: T) (auto simp: links_manualFrom)

lemma symmetric_manualStation: "symmetric T \<Longrightarrow> symmetric (manualStation ids T stopIds)"
  by (auto simp: symmetric_def manualStation_def links_manual_outer)

lemma symmetric_stations: "symmetric T \<Longrightarrow> symmetric (foldl (manualStation ids) T sts)"
  by (induction sts arbitrary: T) (auto simp: symmetric_manualStation)

text \<open>
  Claim C10: in the index that \<open>buildTransferIndex\<close> returns, after the geographic
  pairs and after the links of the station manifest, \<open>b\<close> is in the transfer list of
  \<open>a\<close> exactly when \<open>a\<close> is in the transfer list of \<open>b\<close>.
\<close>

theorem buildTransferIndex_symmetric:
  "b \<in> links (buildTransferIndex near ids stations) a \<longleftrightarrow> a \<in> links (buildTransferIndex near ids stations) b"
proof -
  have "symmetric (Map.empty :: transfer_lists)"
    by (simp add: symmetric_def links_def listOf_def)
  then have "symmetric (buildTransferIndex near ids stations)"
    by (auto simp: buildTransferIndex_def Let_def symmetric_gpsPairs symmetric_stations split: option.splits)
  then show ?thesis by (simp add: symmetric_def)
qed

section \<open>Journeys returned by the core and by the enumeration\<close>

lemma set_setAdd [simp]: "set (setAdd x xs) = insert x (set xs)"
  by (auto simp: setAdd_def)

lemma set_newSet_aux: "set (foldl (\<lambda>acc x. setAdd x acc) acc xs) = set acc \<union> set xs"
  by (induction xs arbitrary: acc) auto

lemma set_newSet [simp]: "set (newSet xs) = set xs"
  by (simp add: newSet_def set_newSet_aux)

lemma reconstructJourney_reconstructed:
  "reconstructJourney eng par origins destId dateISO = Some j \<Longrightarrow> reconstructed j"
  by (auto simp: reconstructJourney_def reconstructed_def Let_def split: option.splits list.splits)

lemma collectDest_reconstructed:
  "list_all reconstructed res \<Longrightarrow>
   list_all reconstructed (collectDest eng s tau_prev origins dateISO res did)"
  by (auto simp: collectDest_def reconstructJourney_reconstructed split: option.splits)

lemma collectDest_fold_reconstructed:
  "list_all reconstructed res \<Longrightarrow>
   list_all reconstructed (foldl (collectDest eng s tau_prev origins dateISO) res ds)"
  by (induction ds arbitrary: res) (auto simp: collectDest_reconstructed)

lemma collectReached_reconstructed:
  "list_all reconstructed (fst rc) \<Longrightarrow>
   list_all reconstructed (fst (collectReached eng s tau_prev origins dateISO rc sid))"
  by (auto simp: collectReached_def reconstructJourney_reconstructed split: option.splits)

lemma collectReached_fold_reconstructed:
  "list_all reconstructed (fst rc) \<Longrightarrow>
   list_all reconstructed (fst (foldl (collectReached eng s tau_prev origins dateISO) rc sids))"
  by (induction sids arbitrary: rc) (auto simp: collectReached_reconstructed)

lemma roundStep_reconstructed:
  "list_all reconstructed (results c) \<Longrightarrow>
   list_all reconstructed (results (roundStep eng stt dateISO destIds c))"
  by (cases destIds)
     (simp_all add: roundStep_def Let_def collectDest_fold_reconstructed
        collectReached_fold_reconstructed)

lemma raptorRounds_reconstructed:
  "list_all reconstructed (results c) \<Longrightarrow>
   list_all reconstructed (results (raptorRounds eng stt dateISO destIds n c))"
  by (induction n arbitrary: c) (auto simp: Let_def roundStep_reconstructed)

lemma seedSister_results [simp]: "results (seedSister startTime oid c e) = results c"
  by (simp add: seedSister_def Let_def)

lemma seedSister_fold_results [simp]:
  "results (foldl (seedSister startTime oid) c es) = results c"
  by (induction es arbitrary: c) auto

lemma seedOrigin_results [simp]: "results (seedOrigin eng startTime c oid) = results c"
  by (simp add: seedOrigin_def Let_def)

lemma initCore_results [simp]: "results (initCore eng originIds startTime) = []"
proof -
  have "results (foldl (seedOrigin eng startTime) c originIds) = results c" for c
    by (induction originIds arbitrary: c) auto
  then show ?thesis by (simp add: initCore_def)
qed

lemma raptorCore_reconstructed:
  "list_all reconstructed (raptorCore eng originIds destIds startTime stt dateISO)"
  by (simp add: raptorCore_def raptorFinal_def raptorRounds_reconstructed)


lemma acceptJourney_all:
  assumes "\<And>j. j \<in> set batch \<Longrightarrow> typeAllowed allowedTypes j \<Longrightarrow> startTime \<le> j_dep_time j \<Longrightarrow> P j"
    and "list_all P (fst rsm)"
  shows "list_all P (fst (foldl (acceptJourney startTime allowedTypes) rsm batch))"
  using assms
proof (induction batch arbitrary: rsm)
  case Nil
  then show ?case by simp
next
  case (Cons j batch)
  have "list_all P (fst (acceptJourney startTime allowedTypes rsm j))"
    using Cons.prems(1) [of j] Cons.prems(2) by (auto simp: acceptJourney_def Let_def)
  then show ?case
    using Cons.IH [of "acceptJourney startTime allowedTypes rsm j"] Cons.prems(1) by simp
qed

lemma enumStep_all:
  assumes "\<And>j t. j \<in> set (core t) \<Longrightarrow> typeAllowed allowedTypes j \<Longrightarrow> startTime \<le> j_dep_time j \<Longrightarrow> P j"
    and "list_all P (e_results e)"
  shows "list_all P (e_results (fst (enumStep core startTime allowedTypes e)))"
proof -
  have "list_all P (fst (acceptBatch startTime allowedTypes e (core (t_cur e))))"
    unfolding acceptBatch_def
    by (rule acceptJourney_all) (use assms in auto)
  then show ?thesis by (simp add: enumStep_def Let_def)
qed

lemma searchLoop_all:
  assumes "\<And>j t. j \<in> set (core t) \<Longrightarrow> typeAllowed allowedTypes j \<Longrightarrow> startTime \<le> j_dep_time j \<Longrightarrow> P j"
    and "list_all P (e_results e)"
  shows "list_all P (e_results (searchLoop core startTime limit allowedTypes e))"
  using assms
proof (induction core startTime limit allowedTypes e rule: searchLoop.induct)
  case (1 core startTime limit allowedTypes e)
  show ?case
  proof (cases "loopGuard startTime limit e")
    case False
    then show ?thesis using "1.prems"(2) by (subst searchLoop.simps) simp
  next
    case True
    let ?eb = "enumStep core startTime allowedTypes e"
    have step: "list_all P (e_results (fst ?eb))"
      by (rule enumStep_all) (use "1.prems" in auto)
    show ?thesis
    proof (cases "snd ?eb")
      case True
      with \<open>loopGuard startTime limit e\<close> step show ?thesis
        by (subst searchLoop.simps) (simp add: Let_def)
    next
      case False
      have "list_all P (e_results (searchLoop core startTime limit allowedTypes (fst ?eb)))"
        by (rule "1.IH" [OF True refl False]) (use "1.prems"(1) step in auto)
      with \<open>loopGuard startTime limit e\<close> False show ?thesis
        by (subst searchLoop.simps) (simp add: Let_def)
    qed
  qed
qed

lemma map_of_update_set:
  "set (map snd (AList.update k v m)) \<subseteq> insert v (set (map snd m))"
  by (induction m) auto

lemma dedupeByArrCity_subset:
  "dedupeByArrCity eng m js = Some m' \<Longrightarrow> set (map snd m') \<subseteq> set (map snd m) \<union> set js"
proof (induction js arbitrary: m)
  case Nil
  then show ?case by simp
next
  case (Cons j js)
  from Cons.prems obtain k where k: "dedupeKey eng j = Some k"
    by (auto split: option.splits)
  from Cons.prems k consider
      "dedupeByArrCity eng (AList.update k j m) js = Some m'"
    | "dedupeByArrCity eng m js = Some m'"
    by (auto split: option.splits if_splits)
  then show ?case
  proof cases
    case 1
    from Cons.IH [OF 1] map_of_update_set [of k j m] show ?thesis by auto
  next
    case 2
    from Cons.IH [OF 2] show ?thesis by auto
  qed
qed

lemma set_slice0: "set (slice0 limit xs) \<subseteq> set xs"
  by (auto simp: slice0_def dest: in_set_takeD)

lemma finish_subset: "finish eng limit res = Some js \<Longrightarrow> set js \<subseteq> set res"
proof -
  assume "finish eng limit res = Some js"
  then obtain m where m: "dedupeByArrCity eng [] (sort_key paretoKey res) = Some m"
    and js: "js = slice0 limit (sort_key paretoKey (map snd m))"
    by (auto simp: finish_def split: option.splits)
  from dedupeByArrCity_subset [OF m] have "set (map snd m) \<subseteq> set res" by simp
  with set_slice0 [of limit "sort_key paretoKey (map snd m)"] show ?thesis
    unfolding js by auto
qed





section \<open>Train-type filter\<close>

text \<open>
  Claim C1, as stated, fails: with the allow-set \<open>{INOUI}\<close> the search from Paris to
  Grenoble returns the journey whose second leg is a TER, because the filter keeps a
  journey as soon as one of its train types is allowed.
\<close>

theorem filter_all_legs_counterexample:
  "searchJourneys emptyEngine [''SNCF:paris''] [''SNCF:grenoble''] 21600
     (buildStopToTrips twoLegTrips) 8 [] (Some [''INOUI'']) = Some [twoLegJourney]
   \<and> \<not> list_all (\<lambda>l. leg_train_type l \<in> set [''INOUI'']) (legs twoLegJourney)"
  by code_simp

text \<open>
  Claim C1, amended: with a supplied allow-set \<open>S\<close>, every journey of the returned list
  has at least one leg whose train type lies in \<open>S\<close>.
\<close>

theorem filter_some_leg:
  assumes "searchJourneys eng originIds destIds startTime stt limit dateISO (Some allowed) = Some js"
    and "j \<in> set js"
  shows "\<exists>l \<in> set (legs j). leg_train_type l \<in> set allowed"
proof -
  let ?core = "\<lambda>t. raptorCore eng originIds (Some destIds) t stt dateISO"
  let ?P = "\<lambda>j. reconstructed j \<and> typeAllowed (Some allowed) j"
  have "list_all ?P (e_results (enumerateJourneys eng originIds destIds startTime stt limit dateISO (Some allowed)))"
    unfolding enumerateJourneys_def
  proof (rule searchLoop_all)
    fix j t
    assume "j \<in> set (?core t)" and "typeAllowed (Some allowed) j"
    then show "?P j"
      using raptorCore_reconstructed [of eng originIds "Some destIds" t stt dateISO]
      by (simp add: list_all_iff)
  qed simp
  moreover have "j \<in> set (e_results (enumerateJourneys eng originIds destIds startTime stt limit dateISO (Some allowed)))"
    using assms(2) finish_subset [OF assms(1) [unfolded searchJourneys_def]] by blast
  ultimately have r: "reconstructed j" and a: "typeAllowed (Some allowed) j"
    by (auto simp: list_all_iff)
  from a obtain tt where "tt \<in> set (train_types j)" "tt \<in> set allowed"
    by (auto simp: typeAllowed_def list_ex_iff)
  with r show ?thesis
    by (auto simp: reconstructed_def)
qed

theorem filter_some_leg_witness:
  "searchJourneys emptyEngine [''SNCF:paris''] [''SNCF:grenoble''] 21600
     (buildStopToTrips twoLegTrips) 8 [] (Some [''INOUI'']) = Some [twoLegJourney]
   \<and> list_ex (\<lambda>l. leg_train_type l \<in> set [''INOUI'']) (legs twoLegJourney)"
proof -
  have eq: "searchJourneys emptyEngine [''SNCF:paris''] [''SNCF:grenoble''] 21600
      (buildStopToTrips twoLegTrips) 8 [] (Some [''INOUI'']) = Some [twoLegJourney]"
    by code_simp
  have "twoLegJourney \<in> set [twoLegJourney]" by simp
  from filter_some_leg [OF eq this] eq show ?thesis
    by (simp add: list_ex_iff)
qed

section \<open>Enumeration of the results\<close>

lemma acceptBatch_new:
  "\<exists>new. fst (foldl (acceptJourney startTime allowedTypes) rsm batch) = fst rsm @ new
        \<and> snd (snd (foldl (acceptJourney startTime allowedTypes) rsm batch))
            = foldl max (snd (snd rsm)) (map j_dep_time new)
        \<and> (\<forall>j \<in> set new. startTime \<le> j_dep_time j)"
proof (induction batch arbitrary: rsm)
  case Nil
  show ?case by simp
next
  case (Cons j batch)
  let ?r = "acceptJourney startTime allowedTypes rsm j"
  from Cons.IH [of ?r] obtain new where new:
    "fst (foldl (acceptJourney startTime allowedTypes) ?r batch) = fst ?r @ new"
    "snd (snd (foldl (acceptJourney startTime allowedTypes) ?r batch))
       = foldl max (snd (snd ?r)) (map j_dep_time new)"
    "\<forall>j \<in> set new. startTime \<le> j_dep_time j"
    by blast
  show ?case
  proof (cases "?r = rsm")
    case True
    with new show ?thesis by auto
  next
    case False
    then have r: "fst ?r = fst rsm @ [j]" "snd (snd ?r) = max (snd (snd rsm)) (j_dep_time j)"
      "startTime \<le> j_dep_time j"
      by (auto simp: acceptJourney_def Let_def max_def split: if_splits)
    show ?thesis
    proof (intro exI conjI)
      show "fst (foldl (acceptJourney startTime allowedTypes) rsm (j # batch)) = fst rsm @ (j # new)"
        using new(1) r(1) by simp
      show "snd (snd (foldl (acceptJourney startTime allowedTypes) rsm (j # batch)))
              = foldl max (snd (snd rsm)) (map j_dep_time (j # new))"
        using new(2) r(2) by simp
      show "\<forall>j \<in> set (j # new). startTime \<le> j_dep_time j"
        using new(3) r(3) by simp
    qed
  qed
qed

lemma foldl_max_Max:
  fixes a :: int
  shows "foldl max a xs = Max (insert a (set xs))"
proof (induction xs arbitrary: a)
  case Nil
  show ?case by simp
next
  case (Cons x xs)
  have "Max (insert (max a x) (set xs)) = Max (insert a (insert x (set xs)))"
  proof (cases "set xs = {}")
    case True
    then show ?thesis by (simp add: max.commute)
  next
    case False
    then show ?thesis by (simp add: max.assoc)
  qed
  with Cons show ?case by simp
qed

lemma searchLoop_exit:
  "\<not> loopGuard startTime limit (searchLoop core startTime limit allowedTypes e)
   \<or> (4 \<le> noNewCount (searchLoop core startTime limit allowedTypes e)
       \<and> e_results (searchLoop core startTime limit allowedTypes e) \<noteq> [])"
proof (induction core startTime limit allowedTypes e rule: searchLoop.induct)
  case (1 core startTime limit allowedTypes e)
  show ?case
  proof (cases "loopGuard startTime limit e")
    case False
    then show ?thesis by (subst (1 2 3) searchLoop.simps) simp
  next
    case True
    let ?eb = "enumStep core startTime allowedTypes e"
    show ?thesis
    proof (cases "snd ?eb")
      case brk: True
      then have "4 \<le> noNewCount (fst ?eb) \<and> e_results (fst ?eb) \<noteq> []"
        by (auto simp: enumStep_def Let_def split: if_splits)
      moreover have "searchLoop core startTime limit allowedTypes e = fst ?eb"
        using True brk by (subst searchLoop.simps) (simp add: Let_def)
      ultimately show ?thesis by simp
    next
      case False
      have "searchLoop core startTime limit allowedTypes e
              = searchLoop core startTime limit allowedTypes (fst ?eb)"
        using True False by (subst searchLoop.simps) (simp add: Let_def)
      with "1.IH" [OF True refl False] show ?thesis by simp
    qed
  qed
qed

text \<open>
  Claim C5, as stated, fails, in two ways. On a timetable where the search finds no
  journey, the enumeration does not stop after four consecutive empty advances. It makes 29
  of them, until the start time passes the initial start time plus 14 hours, because the
  \<open>break\<close> after four empty advances is taken only once a journey has been collected.
  And the loop tells an iteration with a new journey from an empty one by
  \<open>maxDepThis >= 0\<close>, \<open>maxDepThis\<close> starting at \<open>-1\<close>: from the start time
  \<open>-7200\<close>, an iteration that yields one new journey, leaving at \<open>-3600\<close>, is
  followed by the start time \<open>-7200 + 1800\<close> and not by \<open>-3600 + 1\<close>, and it counts
  as an empty advance.
\<close>

theorem four_empty_advances_counterexample:
  "noNewCount (enumerateJourneys emptyEngine [''SNCF:paris''] [''SNCF:grenoble''] 21600
                 Map.empty 8 [] None) = 29
   \<and> t_cur (enumerateJourneys emptyEngine [''SNCF:paris''] [''SNCF:grenoble''] 21600
              Map.empty 8 [] None) = 21600 + 29 * 1800
   \<and> e_results (enumerateJourneys emptyEngine [''SNCF:paris''] [''SNCF:grenoble''] 21600
                  Map.empty 8 [] None) = []
   \<and> map j_dep_time
        (e_results (fst (enumStep
           (\<lambda>t. raptorCore emptyEngine [''SNCF:paris''] (Some [''SNCF:lyon'']) t
                  (buildStopToTrips nightTrips) [])
           (- 7200) None (startState (- 7200))))) = [- 3600]
   \<and> t_cur (fst (enumStep
         (\<lambda>t. raptorCore emptyEngine [''SNCF:paris''] (Some [''SNCF:lyon'']) t
                (buildStopToTrips nightTrips) [])
         (- 7200) None (startState (- 7200)))) = - 7200 + 1800
   \<and> noNewCount (fst (enumStep
         (\<lambda>t. raptorCore emptyEngine [''SNCF:paris''] (Some [''SNCF:lyon'']) t
                (buildStopToTrips nightTrips) [])
         (- 7200) None (startState (- 7200)))) = 1"
  by code_simp

text \<open>
  Claim C5, amended. An iteration appends its new journeys to the results; none of them
  leaves before the initial start time. When it yields at least one new journey and the
  latest of their departure times is not negative, the next start time is the maximum
  departure time over the new journeys plus 1 second and the count of empty advances is
  reset. When it yields none, the start time advances by 1800 seconds, the count grows by
  one, and the iteration ends the enumeration exactly when the count has reached 4 and at
  least one journey has been collected. The enumeration from a state returns that state
  when the results have reached the limit or the start time exceeds the initial start time
  plus 14 hours; otherwise it makes one iteration, returns the state after it when the
  iteration ends the enumeration, and goes on from that state when it does not. So when
  the enumeration has stopped, either the results have reached the limit, or the start
  time exceeds the initial start time plus 14 hours, or four consecutive empty advances
  were made with a journey collected.
\<close>

theorem enumeration_steps:
  "let eb = enumStep core startTime allowedTypes e;
       e' = fst eb;
       new = drop (length (e_results e)) (e_results e');
       final = searchLoop core startTime limit allowedTypes e
   in e_results e' = e_results e @ new
    \<and> (\<forall>j \<in> set new. startTime \<le> j_dep_time j)
    \<and> (new \<noteq> [] \<and> 0 \<le> Max (j_dep_time ` set new) \<longrightarrow>
         t_cur e' = Max (j_dep_time ` set new) + 1 \<and> noNewCount e' = 0 \<and> \<not> snd eb)
    \<and> (new = [] \<longrightarrow>
         t_cur e' = t_cur e + 1800 \<and> noNewCount e' = Suc (noNewCount e)
         \<and> (snd eb \<longleftrightarrow> 4 \<le> Suc (noNewCount e) \<and> e_results e \<noteq> []))
    \<and> final =
        (if int (length (e_results e)) < limit \<and> t_cur e \<le> startTime + 14 * 3600 then
           if snd eb then e' else searchLoop core startTime limit allowedTypes e'
         else e)
    \<and> (limit \<le> int (length (e_results final)) \<or> startTime + 14 * 3600 < t_cur final
         \<or> (4 \<le> noNewCount final \<and> e_results final \<noteq> []))"
proof -
  let ?rsm = "acceptBatch startTime allowedTypes e (core (t_cur e))"
  let ?eb = "enumStep core startTime allowedTypes e"
  let ?final = "searchLoop core startTime limit allowedTypes e"
  obtain new where new: "fst ?rsm = e_results e @ new"
    "snd (snd ?rsm) = foldl max (- 1) (map j_dep_time new)"
    "\<forall>j \<in> set new. startTime \<le> j_dep_time j"
    using acceptBatch_new [of startTime allowedTypes "(e_results e, seen e, - 1)" "core (t_cur e)"]
    by (auto simp: acceptBatch_def)
  have res: "e_results (fst ?eb) = e_results e @ new"
    using new(1) by (simp add: enumStep_def Let_def)
  then have drop: "drop (length (e_results e)) (e_results (fst ?eb)) = new"
    by simp
  have mx: "snd (snd ?rsm) = Max (insert (- 1) (j_dep_time ` set new))"
    using new(2) by (simp add: foldl_max_Max)
  have nonempty: "t_cur (fst ?eb) = Max (j_dep_time ` set new) + 1 \<and> noNewCount (fst ?eb) = 0
      \<and> \<not> snd ?eb" if "new \<noteq> []" and "0 \<le> Max (j_dep_time ` set new)"
  proof -
    have "Max (insert (- 1) (j_dep_time ` set new)) = max (- 1) (Max (j_dep_time ` set new))"
      using that(1) by simp
    with that(2) have "snd (snd ?rsm) = Max (j_dep_time ` set new)" "0 \<le> snd (snd ?rsm)"
      using mx by (simp_all add: max_def)
    then show ?thesis by (simp add: enumStep_def Let_def)
  qed
  have empty: "t_cur (fst ?eb) = t_cur e + 1800 \<and> noNewCount (fst ?eb) = Suc (noNewCount e)
      \<and> (snd ?eb \<longleftrightarrow> 4 \<le> Suc (noNewCount e) \<and> e_results e \<noteq> [])" if "new = []"
  proof -
    from that new have "snd (snd ?rsm) = - 1" "fst ?rsm = e_results e" by simp_all
    then show ?thesis by (simp add: enumStep_def Let_def)
  qed
  have unfold: "?final =
      (if int (length (e_results e)) < limit \<and> t_cur e \<le> startTime + 14 * 3600 then
         if snd ?eb then fst ?eb else searchLoop core startTime limit allowedTypes (fst ?eb)
       else e)"
    by (subst searchLoop.simps) (simp add: loopGuard_def Let_def)
  have exit: "limit \<le> int (length (e_results ?final)) \<or> startTime + 14 * 3600 < t_cur ?final
      \<or> (4 \<le> noNewCount ?final \<and> e_results ?final \<noteq> [])"
    using searchLoop_exit [of startTime limit core allowedTypes e]
    by (auto simp: loopGuard_def)
  show ?thesis
    unfolding Let_def drop using res new(3) nonempty empty unfold exit by blast
qed

theorem enumeration_steps_witness:
  "e_results (fst (enumStep
         (\<lambda>t. raptorCore emptyEngine [''SNCF:paris''] (Some [''SNCF:grenoble'']) t
                (buildStopToTrips twoLegTrips) [])
         21600 None (startState 21600))) = [twoLegJourney]
   \<and> (21600 \<le> j_dep_time twoLegJourney \<and> 0 \<le> Max (j_dep_time ` set [twoLegJourney]))
   \<and> t_cur (fst (enumStep
         (\<lambda>t. raptorCore emptyEngine [''SNCF:paris''] (Some [''SNCF:grenoble'']) t
                (buildStopToTrips twoLegTrips) [])
         21600 None (startState 21600))) = 25200 + 1
   \<and> t_cur (fst (enumStep
         (\<lambda>t. raptorCore emptyEngine [''SNCF:paris''] (Some [''SNCF:grenoble'']) t
                (buildStopToTrips twoLegTrips) [])
         21600 None waitingState)) = 30601 + 1800
   \<and> searchLoop
        (\<lambda>t. raptorCore emptyEngine [''SNCF:paris''] (Some [''SNCF:grenoble'']) t
               (buildStopToTrips twoLegTrips) [])
        21600 8 None waitingState
       = waitingState\<lparr>t_cur := 30601 + 1800, noNewCount := 4\<rparr>
   \<and> searchLoop
        (\<lambda>t. raptorCore emptyEngine [''SNCF:paris''] (Some [''SNCF:grenoble'']) t
               (buildStopToTrips twoLegTrips) [])
        21600 8 None (startState 21600)
       = \<lparr>e_results = [twoLegJourney], seen = [''SNCF:6601|SNCF:17601''],
          t_cur = 25201 + 4 * 1800, noNewCount = 4\<rparr>"
proof -
  let ?core = "\<lambda>t. raptorCore emptyEngine [''SNCF:paris''] (Some [''SNCF:grenoble'']) t
                      (buildStopToTrips twoLegTrips) []"
  have res: "e_results (fst (enumStep ?core 21600 None (startState 21600))) = [twoLegJourney]"
    by code_simp
  have dep: "j_dep_time twoLegJourney = 25200"
    by (simp add: twoLegJourney_def)
  have old: "e_results (startState 21600) = []"
    by (simp add: startState_def)
  have wait: "enumStep ?core 21600 None waitingState
                = (waitingState\<lparr>t_cur := 30601 + 1800, noNewCount := 4\<rparr>, True)"
    by code_simp
  have now: "t_cur waitingState = 30601"
    by (simp add: waitingState_def)
  have guard: "(int (length (e_results waitingState)) < 8
                 \<and> t_cur waitingState \<le> 21600 + 14 * 3600) = True"
    by (simp add: waitingState_def)
  have run: "searchLoop ?core 21600 8 None (startState 21600)
       = \<lparr>e_results = [twoLegJourney], seen = [''SNCF:6601|SNCF:17601''],
          t_cur = 25201 + 4 * 1800, noNewCount = 4\<rparr>"
    by code_simp
  note step = enumeration_steps [of ?core 21600 None "startState 21600" 8, unfolded Let_def]
  note last = enumeration_steps [of ?core 21600 None waitingState 8, unfolded Let_def]
  have late: "21600 \<le> j_dep_time twoLegJourney \<and> 0 \<le> Max (j_dep_time ` set [twoLegJourney])"
    using step [THEN conjunct2, THEN conjunct1] by (simp add: res old dep)
  have first: "t_cur (fst (enumStep ?core 21600 None (startState 21600))) = 25200 + 1"
    using step [THEN conjunct2, THEN conjunct2, THEN conjunct1] by (simp add: res old dep)
  have none: "t_cur (fst (enumStep ?core 21600 None waitingState)) = 30601 + 1800"
    using last [THEN conjunct2, THEN conjunct2, THEN conjunct2, THEN conjunct1]
    by (simp add: wait now)
  have stop: "searchLoop ?core 21600 8 None waitingState
                = waitingState\<lparr>t_cur := 30601 + 1800, noNewCount := 4\<rparr>"
    using last [THEN conjunct2, THEN conjunct2, THEN conjunct2, THEN conjunct2, THEN conjunct1]
    by (simp only: guard wait if_True snd_conv fst_conv)
  from res late first none stop run show ?thesis by (simp only: simp_thms)
qed

section \<open>Deduplication by arrival city\<close>








section \<open>Unknown stop identifiers\<close>

text \<open>An unknown identifier resolves to itself, has no transfer and no trip.\<close>

lemma unknown_transferEntries: "unknownStop eng sid \<Longrightarrow> transferEntries eng sid = []"
  by (simp add: unknownStop_def transferEntries_def)

lemma foldl_never:
  "\<forall>x \<in> set xs. \<not> c x \<Longrightarrow> foldl (\<lambda>out x. if c x then f x out else out) out xs = out"
  by (induction xs arbitrary: out) auto

lemma unknown_addArea: "unknownStop eng sid \<Longrightarrow> addArea eng sid out = out"
  by (cases "areaMatch sid")
     (auto simp: unknownStop_def addArea_def list_ex_iff intro!: foldl_never)

lemma resolve_unknown_aux:
  "\<forall>sid \<in> set ids. unknownStop eng sid \<Longrightarrow>
   foldl (\<lambda>out sid. foldl (addSister dest inp sid) (addArea eng sid out) (transferEntries eng sid))
     out ids = out"
  by (induction ids arbitrary: out) (auto simp: unknown_addArea unknown_transferEntries)

lemma resolveStopIds_unknown:
  assumes "\<forall>sid \<in> set ids. unknownStop eng sid \<and> sid \<notin> set objectPrototypeNames"
  shows "resolveStopIds eng ids dest = Some (newSet ids)"
proof -
  from assms have "\<not> list_ex (raisesTypeError eng) ids"
    by (auto simp: list_ex_iff raisesTypeError_def)
  with assms show ?thesis
    by (simp add: resolveStopIds_def resolve_unknown_aux)
qed

text \<open>Only stops of the indexed trips are keys of the stop-to-trips index.\<close>

lemma pushEntry_fold_dom:
  "dom (fst (foldl (pushEntry routeId trip) ix sts)) \<subseteq> dom (fst ix) \<union> stop_id ` set sts"
proof (induction sts arbitrary: ix)
  case Nil
  show ?case by simp
next
  case (Cons st sts)
  have "dom (fst (pushEntry routeId trip ix st)) \<subseteq> insert (stop_id st) (dom (fst ix))"
    by (auto simp: pushEntry_def Let_def)
  with Cons [of "pushEntry routeId trip ix st"] show ?case by auto
qed

lemma indexTrip_dom:
  "dom (indexTrip routeId index trip) \<subseteq> dom index \<union> stop_id ` set (stop_times trip)"
  using pushEntry_fold_dom [of routeId trip "(index, 0)" "stop_times trip"]
  by (simp add: indexTrip_def)

lemma indexTrips_dom:
  "dom (foldl (indexTrip routeId) index trips)
     \<subseteq> dom index \<union> (\<Union>t \<in> set trips. stop_id ` set (stop_times t))"
proof (induction trips arbitrary: index)
  case Nil
  show ?case by simp
next
  case (Cons t trips)
  from Cons [of "indexTrip routeId index t"] indexTrip_dom [of routeId index t]
  show ?case by auto
qed

lemma buildStopToTrips_dom_aux:
  "dom (foldl (\<lambda>index (routeId, trips). foldl (indexTrip routeId) index trips) index tds)
     \<subseteq> dom index \<union> set (stopIdsOf tds)"
proof (induction tds arbitrary: index)
  case Nil
  show ?case by simp
next
  case (Cons rt tds)
  obtain routeId trips where rt: "rt = (routeId, trips)" by (cases rt)
  have here: "dom (foldl (indexTrip routeId) index trips) \<subseteq> dom index \<union> set (stopIdsOf [rt])"
    using indexTrips_dom [of routeId index trips] by (simp add: stopIdsOf_def rt)
  have split: "set (stopIdsOf (rt # tds)) = set (stopIdsOf [rt]) \<union> set (stopIdsOf tds)"
    by (simp add: stopIdsOf_def)
  have step: "foldl (\<lambda>index (routeId, trips). foldl (indexTrip routeId) index trips) index (rt # tds)
      = foldl (\<lambda>index (routeId, trips). foldl (indexTrip routeId) index trips)
          (foldl (indexTrip routeId) index trips) tds"
    by (simp add: rt)
  from Cons [of "foldl (indexTrip routeId) index trips"] here
  show ?case unfolding step split by blast
qed

lemma buildStopToTrips_dom: "dom (buildStopToTrips tds) \<subseteq> set (stopIdsOf tds)"
  using buildStopToTrips_dom_aux [of Map.empty tds] by (simp add: buildStopToTrips_def)

lemma set_stopIdsOf:
  "set (stopIdsOf tds) = (\<Union>rt \<in> set tds. \<Union>t \<in> set (snd rt). stop_id ` set (stop_times t))"
  by (simp add: stopIdsOf_def)

lemma stopIdsOf_filtered:
  "set (stopIdsOf (filter (\<lambda>(rid, valid). valid \<noteq> [])
                     (map (\<lambda>(rid, trips). (rid, filter keep trips)) tds)))
     \<subseteq> set (stopIdsOf tds)"
proof
  fix x
  assume "x \<in> set (stopIdsOf (filter (\<lambda>(rid, valid). valid \<noteq> [])
                     (map (\<lambda>(rid, trips). (rid, filter keep trips)) tds)))"
  then obtain rt t where "rt \<in> set (filter (\<lambda>(rid, valid). valid \<noteq> [])
                     (map (\<lambda>(rid, trips). (rid, filter keep trips)) tds))"
    and t: "t \<in> set (snd rt)" and x: "x \<in> stop_id ` set (stop_times t)"
    unfolding set_stopIdsOf by blast
  then have rt: "rt \<in> set (map (\<lambda>(rid, trips). (rid, filter keep trips)) tds)"
    by simp
  from rt obtain rt' where rt': "rt' \<in> set tds" and eq: "rt = (fst rt', filter keep (snd rt'))"
    by (auto simp: case_prod_beta)
  from t eq have "t \<in> set (snd rt')" by simp
  with rt' x show "x \<in> set (stopIdsOf tds)"
    unfolding set_stopIdsOf by blast
qed

lemma getFilteredData_dom:
  assumes "getFilteredData eng dateISO = Some stt"
  shows "dom stt \<subseteq> set (stopIdsOf (routeTrips eng))"
proof (cases "stt = globalStopToTrips eng")
  case True
  then show ?thesis
    using buildStopToTrips_dom [of "routeTrips eng"] by (simp add: globalStopToTrips_def)
next
  case False
  with assms obtain active where stt: "stt = buildStopToTrips
      (filter (\<lambda>(rid, valid). valid \<noteq> [])
         (map (\<lambda>(rid, trips). (rid, filter (\<lambda>t. service_id t \<in> set active) trips))
            (routeTrips eng)))"
    by (auto simp: getFilteredData_def split: if_splits option.splits)
  let ?fl = "filter (\<lambda>(rid, valid). valid \<noteq> [])
               (map (\<lambda>(rid, trips). (rid, filter (\<lambda>t. service_id t \<in> set active) trips))
                  (routeTrips eng))"
  have "dom (buildStopToTrips ?fl) \<subseteq> set (stopIdsOf ?fl)"
    by (rule buildStopToTrips_dom)
  moreover have "set (stopIdsOf ?fl) \<subseteq> set (stopIdsOf (routeTrips eng))"
    by (rule stopIdsOf_filtered)
  ultimately show ?thesis unfolding stt by (simp only: subset_trans)
qed

lemma unknown_no_trips:
  "unknownStop eng sid \<Longrightarrow> getFilteredData eng dateISO = Some stt \<Longrightarrow> stt sid = None"
  using getFilteredData_dom [of eng dateISO stt] by (auto simp: unknownStop_def)

lemma getFilteredData_dateless: "getFilteredData eng [] = Some (globalStopToTrips eng)"
  by (simp add: getFilteredData_def)

lemma getFilteredData_returns:
  "dateISO \<notin> set objectPrototypeNames \<Longrightarrow> \<exists>stt. getFilteredData eng dateISO = Some stt"
  by (simp add: getFilteredData_def getActiveServices_def split: option.splits)

text \<open>Origins without transfers and without trips: the core returns no journey.\<close>

lemma seedOrigin_isolated:
  assumes "transferEntries eng oid = []"
  shows "set (marked (seedOrigin eng startTime c oid)) \<subseteq> insert oid (set (marked c))"
  using assms by (auto simp: seedOrigin_def Let_def)

lemma initCore_isolated_aux:
  "\<forall>oid \<in> set originIds. transferEntries eng oid = [] \<Longrightarrow>
   set (marked (foldl (seedOrigin eng startTime) c originIds)) \<subseteq> set (marked c) \<union> set originIds"
proof (induction originIds arbitrary: c)
  case Nil
  show ?case by simp
next
  case (Cons oid originIds)
  from Cons.IH [of "seedOrigin eng startTime c oid"] Cons.prems
    seedOrigin_isolated [of eng oid startTime c]
  show ?case by auto
qed

lemma initCore_isolated:
  "\<forall>oid \<in> set originIds. transferEntries eng oid = [] \<Longrightarrow>
   set (marked (initCore eng originIds startTime)) \<subseteq> set originIds"
  using initCore_isolated_aux [of originIds eng startTime
      "\<lparr>tau_best = Map.empty, parents = [], originSet = [], marked = [], results = [],
        collected = []\<rparr>"]
  by (simp add: initCore_def)

lemma scan_no_trips:
  "\<forall>stop \<in> set stops. stt stop = None \<Longrightarrow> foldl (scanStop eng stt dateISO) s stops = s"
  by (induction stops arbitrary: s) (auto simp: scanStop_def)

lemma collectDest_idle:
  "tau_cur s = [] \<Longrightarrow> foldl (collectDest eng s tau_prev origins dateISO) res ds = res"
  by (induction ds arbitrary: res) (auto simp: collectDest_def improved_def)

lemma roundStep_idle:
  assumes "\<forall>stop \<in> set (marked c). stt stop = None"
  shows "marked (roundStep eng stt dateISO (Some ds) c) = []
       \<and> results (roundStep eng stt dateISO (Some ds) c) = results c"
  using assms by (simp add: roundStep_def scanMarked_def Let_def scan_no_trips collectDest_idle)

lemma raptorCore_isolated:
  assumes "\<forall>oid \<in> set originIds. transferEntries eng oid = [] \<and> stt oid = None"
  shows "raptorCore eng originIds (Some ds) startTime stt dateISO = []"
proof -
  let ?c = "initCore eng originIds startTime"
  from assms initCore_isolated [of originIds eng startTime]
  have "\<forall>stop \<in> set (marked ?c). stt stop = None" by auto
  from roundStep_idle [OF this, of eng dateISO ds]
  have idle: "marked (roundStep eng stt dateISO (Some ds) ?c) = []"
    "results (roundStep eng stt dateISO (Some ds) ?c) = []"
    by simp_all
  have "raptorRounds eng stt dateISO (Some ds) (Suc 4) ?c = roundStep eng stt dateISO (Some ds) ?c"
    using idle(1) by (simp only: raptorRounds.simps Let_def) simp
  moreover have "MAX_ROUNDS = Suc 4" by (simp add: MAX_ROUNDS_def)
  ultimately show ?thesis using idle(2) by (simp only: raptorCore_def raptorFinal_def)
qed

lemma searchLoop_no_batches:
  assumes "\<And>t. core t = []"
  shows "e_results (searchLoop core startTime limit allowedTypes
           \<lparr>e_results = [], seen = [], t_cur = startTime, noNewCount = 0\<rparr>) = []"
proof -
  have "list_all (\<lambda>j. False)
          (e_results (searchLoop core startTime limit allowedTypes
             \<lparr>e_results = [], seen = [], t_cur = startTime, noNewCount = 0\<rparr>))"
    by (rule searchLoop_all) (simp_all add: assms)
  then show ?thesis by (simp add: list_all_iff)
qed

lemma finish_Nil: "finish eng limit [] = Some []"
  by (simp add: finish_def slice0_def)

text \<open>
  A search request that supplies at least one origin and one destination, all of them
  unknown to the timetable, and in which neither an identifier nor the date is the name of
  an inherited property, is answered with status 200 and an empty journey list,
  \<open>last_dep_time\<close> being the start time of the search.
\<close>

lemma unknown_stops_empty_result:
  assumes "filter (\<lambda>s. s \<noteq> []) (q_from q) \<noteq> []"
    and "filter (\<lambda>s. s \<noteq> []) (q_to q) \<noteq> []"
    and "\<forall>sid \<in> set (q_from q) \<union> set (q_to q).
           sid \<noteq> [] \<longrightarrow> unknownStop eng sid \<and> sid \<notin> set objectPrototypeNames"
    and "q_date q \<notin> set objectPrototypeNames"
  shows "apiSearch eng q = Some (SearchOk [] (max (q_time q + q_offset q) (q_after_dep q)))"
proof -
  let ?from = "filter (\<lambda>s. s \<noteq> []) (q_from q)"
  let ?to = "filter (\<lambda>s. s \<noteq> []) (q_to q)"
  from assms(4) obtain stt where stt: "getFilteredData eng (q_date q) = Some stt"
    using getFilteredData_returns by blast
  from assms(3) have unk: "\<forall>sid \<in> set (newSet ?from). unknownStop eng sid \<and> sid \<notin> set objectPrototypeNames"
    and unk': "\<forall>sid \<in> set (newSet ?to). unknownStop eng sid \<and> sid \<notin> set objectPrototypeNames"
    by auto
  from unk have from_eq: "resolveStopIds eng (newSet ?from) False = Some (newSet (newSet ?from))"
    by (rule resolveStopIds_unknown)
  from unk' have to_eq: "resolveStopIds eng (newSet ?to) True = Some (newSet (newSet ?to))"
    by (rule resolveStopIds_unknown)
  have iso: "\<forall>oid \<in> set (newSet (newSet ?from)). transferEntries eng oid = [] \<and> stt oid = None"
    using unk stt by (auto simp: unknown_transferEntries unknown_no_trips)
  have "searchJourneys eng (newSet (newSet ?from)) ds startSec stt limit (q_date q) (q_train_types q)
          = Some []" for ds startSec limit
    unfolding searchJourneys_def enumerateJourneys_def
    by (subst searchLoop_no_batches) (simp_all add: raptorCore_isolated [OF iso] finish_Nil)
  with assms(1,2) from_eq to_eq stt show ?thesis
    by (simp add: apiSearch_def Let_def)
qed

lemma unknown_stops_empty_result_example:
  "apiSearch twoLegEngine unknownQuery = Some (SearchOk [] 28800)"
proof -
  have ne: "filter (\<lambda>s. s \<noteq> []) (q_from unknownQuery) \<noteq> []"
    "filter (\<lambda>s. s \<noteq> []) (q_to unknownQuery) \<noteq> []"
    by (simp_all add: unknownQuery_def)
  have unk: "unknownStop twoLegEngine ''SNCF:atlantis''" "unknownStop twoLegEngine ''TI:eldorado''"
    by code_simp+
  have names: "''SNCF:atlantis'' \<notin> set objectPrototypeNames"
    "''TI:eldorado'' \<notin> set objectPrototypeNames"
    by (simp_all add: objectPrototypeNames_def)
  from unk names have all: "\<forall>sid \<in> set (q_from unknownQuery) \<union> set (q_to unknownQuery).
      sid \<noteq> [] \<longrightarrow> unknownStop twoLegEngine sid \<and> sid \<notin> set objectPrototypeNames"
    by (simp add: unknownQuery_def)
  have date: "q_date unknownQuery \<notin> set objectPrototypeNames"
    by (simp add: unknownQuery_def objectPrototypeNames_def)
  from unknown_stops_empty_result [OF ne all date] show ?thesis
    by (simp add: unknownQuery_def)
qed

text \<open>
  The date of a request is looked up in the same way: with \<open>date=constructor\<close> the same
  request with unknown identifiers gets no response either, \<open>getActiveServices\<close> raising
  the \<open>TypeError\<close>.
\<close>

lemma inherited_name_date_fails:
  "getFilteredData twoLegEngine ''constructor'' = None
   \<and> apiSearch twoLegEngine (unknownQuery\<lparr>q_date := ''constructor''\<rparr>) = None"
  by code_simp

text \<open>
  Claim C7 at a concrete input: the request \<open>from=constructor&to=TI:eldorado\<close>. Both
  identifiers are unknown to the timetable, but \<open>transferIndex['constructor']\<close> is the
  inherited constructor of objects and not \<open>undefined\<close>: \<open>transferEntries\<close> raises a
  \<open>TypeError\<close> in \<open>resolveStopIds\<close>, which no handler catches, and the request gets no
  response instead of the empty journey list.
\<close>

theorem inherited_name_request_fails:
  "unknownStop twoLegEngine ''constructor'' \<and> unknownStop twoLegEngine ''TI:eldorado''
   \<and> resolveStopIds twoLegEngine [''constructor''] False = None
   \<and> apiSearch twoLegEngine inheritedNameQuery = None"
  by code_simp

section \<open>Start time and arrival times\<close>

text \<open>
  Claim C8, as stated, fails. The origin \<open>SNCF:gare-a\<close> has the inter-city neighbour
  \<open>SNCF:gare-b\<close>, whose sibling stop \<open>SNCF:gare-c\<close> is the destination. From the start
  time 0 the neighbour is seeded at 2700, before the train that reaches it at 3100, so the
  neighbour is not improved and its transfer to the destination is never relaxed: the
  destination is reached at 5000 by the later trip. From the start time 1000 the neighbour
  is seeded at 3700, the train improves it, and the destination is reached at 3280 on foot.
  The larger start time yields the strictly earlier arrival, in the arrival table and in the
  arrival times of the journeys returned.
\<close>

theorem later_start_earlier_arrival_counterexample:
  "(0::int) < 1000
   \<and> tau_best (raptorFinal siblingEngine [''SNCF:gare-a''] (Some [''SNCF:gare-c'']) 0
                 (globalStopToTrips siblingEngine) []) ''SNCF:gare-c'' = Some 5000
   \<and> tau_best (raptorFinal siblingEngine [''SNCF:gare-a''] (Some [''SNCF:gare-c'']) 1000
                 (globalStopToTrips siblingEngine) []) ''SNCF:gare-c'' = Some 3280
   \<and> map j_arr_time (raptorCore siblingEngine [''SNCF:gare-a''] (Some [''SNCF:gare-c'']) 0
                        (globalStopToTrips siblingEngine) []) = [5000]
   \<and> map j_arr_time (raptorCore siblingEngine [''SNCF:gare-a''] (Some [''SNCF:gare-c'']) 1000
                        (globalStopToTrips siblingEngine) []) = [3100]"
  by code_simp

lemma noLater_refl: "noLater a a"
  by (cases a) (simp_all add: noLater_def)

lemma relax_both:
  assumes "tableNoLater tau tau'"
  shows "tableNoLater (if earlier arr (tau sid) then tau(sid \<mapsto> arr) else tau)
           (if earlier arr (tau' sid) then tau'(sid \<mapsto> arr) else tau')"
  unfolding tableNoLater_def
proof
  fix x
  from assms have "noLater (tau x) (tau' x)" "noLater (tau sid) (tau' sid)"
    by (simp_all add: tableNoLater_def)
  then show "noLater ((if earlier arr (tau sid) then tau(sid \<mapsto> arr) else tau) x)
                     ((if earlier arr (tau' sid) then tau'(sid \<mapsto> arr) else tau') x)"
    by (cases "tau sid"; cases "tau' sid"; cases "x = sid")
       (auto simp: noLater_def earlier_def split: option.splits)
qed

lemma relax_left:
  assumes "tableNoLater tau tau'"
  shows "tableNoLater (if earlier arr (tau sid) then tau(sid \<mapsto> arr) else tau) tau'"
  unfolding tableNoLater_def
proof
  fix x
  from assms have "noLater (tau x) (tau' x)" "noLater (tau sid) (tau' sid)"
    by (simp_all add: tableNoLater_def)
  then show "noLater ((if earlier arr (tau sid) then tau(sid \<mapsto> arr) else tau) x) (tau' x)"
    by (cases "tau sid"; cases "tau' sid"; cases "x = sid")
       (auto simp: noLater_def earlier_def split: option.splits)
qed

text \<open>
  A scan that has boarded, or boards no later, ends with an arrival table that is no later.
\<close>

lemma scanTau_mono:
  assumes "tableNoLater tau tau'" and "b' \<longrightarrow> b"
  shows "tableNoLater (scanTau eng trip dateISO sts b tau) (scanTau eng trip dateISO sts b' tau')"
  using assms
proof (induction sts arbitrary: b b' tau tau')
  case Nil
  then show ?case by simp
next
  case (Cons st rest)
  show ?case
  proof (cases b)
    case bT: True
    show ?thesis
    proof (cases b')
      case b'T: True
      show ?thesis
      proof (cases "arrAt eng trip st dateISO")
        case None
        with bT b'T Cons.prems(1) show ?thesis
          by (auto intro!: Cons.IH)
      next
        case (Some arr)
        have "tableNoLater
                (scanTau eng trip dateISO rest True
                   (if earlier arr (tau (stop_id st)) then tau(stop_id st \<mapsto> arr) else tau))
                (scanTau eng trip dateISO rest True
                   (if earlier arr (tau' (stop_id st)) then tau'(stop_id st \<mapsto> arr) else tau'))"
          by (rule Cons.IH [OF relax_both [OF Cons.prems(1)]]) simp
        with bT b'T Some show ?thesis
          by (simp split del: if_split)
      qed
    next
      case b'F: False
      have left: "tableNoLater (if earlier arr (tau (stop_id st)) then tau(stop_id st \<mapsto> arr) else tau) tau'"
        for arr using Cons.prems(1) by (rule relax_left)
      show ?thesis
      proof (cases "arrAt eng trip st dateISO")
        case None
        with bT b'F Cons.prems(1) show ?thesis
          by (auto intro!: Cons.IH split: option.splits)
      next
        case (Some arr)
        have step: "tableNoLater
                (scanTau eng trip dateISO rest True
                   (if earlier arr (tau (stop_id st)) then tau(stop_id st \<mapsto> arr) else tau))
                (scanTau eng trip dateISO rest bb tau')" for bb
          by (rule Cons.IH [OF left]) simp
        from bT b'F Some show ?thesis
          by (auto simp: step split: option.splits split del: if_split)
      qed
    qed
  next
    case bF: False
    with Cons.prems(2) have b'F: "\<not> b'" by simp
    from Cons.prems(1) have here: "noLater (tau (stop_id st)) (tau' (stop_id st))"
      by (simp add: tableNoLater_def)
    show ?thesis
    proof (cases "tau' (stop_id st)")
      case None
      with bF b'F Cons.prems(1) show ?thesis
        by (auto intro!: Cons.IH split: option.splits)
    next
      case (Some t')
      with here obtain t where t: "tau (stop_id st) = Some t" "t \<le> t'"
        by (auto simp: noLater_def split: option.splits)
      show ?thesis
      proof (cases "depAt eng trip st dateISO")
        case None
        with bF b'F Some t Cons.prems(1) show ?thesis
          by (auto intro!: Cons.IH)
      next
        case (Some dep)
        have "tableNoLater (scanTau eng trip dateISO rest (dep \<ge> t) tau)
                (scanTau eng trip dateISO rest (dep \<ge> t') tau')"
          using Cons.prems(1) t(2) by (intro Cons.IH) auto
        with bF b'F Some t \<open>tau' (stop_id st) = Some t'\<close> show ?thesis
          by simp
      qed
    qed
  qed
qed

lemma scanStops_tauBest:
  "tauBest (scanStops eng trip routeId dateISO sts board s)
     = scanTau eng trip dateISO sts (board \<noteq> None) (tauBest s)"
  by (induction eng trip routeId dateISO sts board s rule: scanStops.induct)
     (auto split: option.splits simp: fun_upd_def)

lemma scanTrip_mono:
  assumes "tableNoLater (tauBest s) (tauBest s')"
  shows "tableNoLater (tauBest (scanTrip eng trip fromIdx s routeId dateISO))
           (tauBest (scanTrip eng trip fromIdx s' routeId dateISO))"
  using assms by (simp add: scanTrip_def scanStops_tauBest scanTau_mono)

lemma scanStop_mono:
  assumes "tableNoLater (tauBest s) (tauBest s')"
  shows "tableNoLater (tauBest (scanStop eng stt dateISO s stop))
           (tauBest (scanStop eng stt dateISO s' stop))"
proof -
  have "tableNoLater
          (tauBest (foldl (\<lambda>s (routeId, trip, idx). scanTrip eng trip idx s routeId dateISO) s es))
          (tauBest (foldl (\<lambda>s (routeId, trip, idx). scanTrip eng trip idx s routeId dateISO) s' es))"
    for es
    using assms
  proof (induction es arbitrary: s s')
    case Nil
    then show ?case by simp
  next
    case (Cons e es)
    obtain routeId trip idx where e: "e = (routeId, trip, idx)" by (cases e)
    from Cons.prems show ?case
      unfolding e by (auto intro!: Cons.IH scanTrip_mono)
  qed
  then show ?thesis by (simp add: scanStop_def)
qed

lemma scanStops_mono:
  assumes "tableNoLater (tauBest s) (tauBest s')"
  shows "tableNoLater (tauBest (foldl (scanStop eng stt dateISO) s stops))
           (tauBest (foldl (scanStop eng stt dateISO) s' stops))"
  using assms
  by (induction stops arbitrary: s s') (auto intro: scanStop_mono)

text \<open>
  The initialisation commutes with a shift of the start time: the same stops are marked and
  every seeded time is shifted.
\<close>

lemma seedSister_shift:
  assumes "\<forall>sid. tau_best c' sid = map_option (\<lambda>x. x + d) (tau_best c sid)"
    and "marked c' = marked c"
  shows "(\<forall>sid. tau_best (seedSister (startTime + d) oid c' e) sid
                 = map_option (\<lambda>x. x + d) (tau_best (seedSister startTime oid c e) sid))
       \<and> marked (seedSister (startTime + d) oid c' e) = marked (seedSister startTime oid c e)"
proof -
  have "earlier (startTime + d + transferTime oid e) (tau_best c' (entry_id e))
          = earlier (startTime + transferTime oid e) (tau_best c (entry_id e))"
    using assms(1) by (cases "tau_best c (entry_id e)") (simp_all add: earlier_def)
  with assms show ?thesis
    by (simp add: seedSister_def Let_def)
qed

lemma seedSisters_shift:
  assumes "\<forall>sid. tau_best c' sid = map_option (\<lambda>x. x + d) (tau_best c sid)"
    and "marked c' = marked c"
  shows "(\<forall>sid. tau_best (foldl (seedSister (startTime + d) oid) c' es) sid
                 = map_option (\<lambda>x. x + d) (tau_best (foldl (seedSister startTime oid) c es) sid))
       \<and> marked (foldl (seedSister (startTime + d) oid) c' es)
           = marked (foldl (seedSister startTime oid) c es)"
  using assms
proof (induction es arbitrary: c c')
  case Nil
  then show ?case by simp
next
  case (Cons e es)
  from seedSister_shift [OF Cons.prems, of startTime oid e]
  show ?case by (simp only: foldl_Cons) (rule Cons.IH, simp_all)
qed

lemma seedOrigin_shift:
  assumes "\<forall>sid. tau_best c' sid = map_option (\<lambda>x. x + d) (tau_best c sid)"
    and "marked c' = marked c"
  shows "(\<forall>sid. tau_best (seedOrigin eng (startTime + d) c' oid) sid
                 = map_option (\<lambda>x. x + d) (tau_best (seedOrigin eng startTime c oid) sid))
       \<and> marked (seedOrigin eng (startTime + d) c' oid) = marked (seedOrigin eng startTime c oid)"
proof -
  have "earlier (startTime + d) (tau_best c' oid) = earlier startTime (tau_best c oid)"
    using assms(1) by (cases "tau_best c oid") (simp_all add: earlier_def)
  with assms show ?thesis
    unfolding seedOrigin_def Let_def
    by (intro seedSisters_shift) simp_all
qed

lemma initCore_shift:
  "(\<forall>sid. tau_best (initCore eng originIds (startTime + d)) sid
            = map_option (\<lambda>x. x + d) (tau_best (initCore eng originIds startTime) sid))
   \<and> marked (initCore eng originIds (startTime + d)) = marked (initCore eng originIds startTime)"
proof -
  have "(\<forall>sid. tau_best (foldl (seedOrigin eng (startTime + d)) c' originIds) sid
            = map_option (\<lambda>x. x + d) (tau_best (foldl (seedOrigin eng startTime) c originIds) sid))
      \<and> marked (foldl (seedOrigin eng (startTime + d)) c' originIds)
          = marked (foldl (seedOrigin eng startTime) c originIds)"
    if "\<forall>sid. tau_best c' sid = map_option (\<lambda>x. x + d) (tau_best c sid)" "marked c' = marked c"
    for c c'
    using that
  proof (induction originIds arbitrary: c c')
    case Nil
    then show ?case by simp
  next
    case (Cons oid originIds)
    from seedOrigin_shift [OF Cons.prems, of eng startTime oid]
    show ?case by (simp only: foldl_Cons) (rule Cons.IH, simp_all)
  qed
  then show ?thesis by (simp add: initCore_def)
qed

text \<open>
  Claim C8, amended: the scan of a trip from a stop index turns an arrival table that is
  nowhere later than another into a table that is nowhere later than the scan of the
  other; and, for two invocations of the core that differ only in start time, after the
  initialisation and the trip scans of the first round the invocation with the larger
  start time holds at every stop an arrival time that is greater than or equal to that
  of the smaller start time (an unreached stop counting as infinitely late).
\<close>

theorem first_scans_monotone:
  "(tableNoLater (tauBest s) (tauBest s') \<longrightarrow>
      noLater (tauBest (scanTrip eng trip fromIdx s routeId dateISO) sid)
              (tauBest (scanTrip eng trip fromIdx s' routeId dateISO) sid))
   \<and> (t1 \<le> t2 \<longrightarrow>
      noLater (tauBest (scanMarked eng stt dateISO (initCore eng originIds t1)) sid)
              (tauBest (scanMarked eng stt dateISO (initCore eng originIds t2)) sid))"
proof (intro conjI impI)
  assume "tableNoLater (tauBest s) (tauBest s')"
  from scanTrip_mono [OF this] show
    "noLater (tauBest (scanTrip eng trip fromIdx s routeId dateISO) sid)
             (tauBest (scanTrip eng trip fromIdx s' routeId dateISO) sid)"
    by (simp add: tableNoLater_def)
next
  assume le: "t1 \<le> t2"
  let ?c1 = "initCore eng originIds t1" and ?c2 = "initCore eng originIds t2"
  from initCore_shift [of eng originIds t1 "t2 - t1"]
  have tau: "\<forall>sid. tau_best ?c2 sid = map_option (\<lambda>x. x + (t2 - t1)) (tau_best ?c1 sid)"
    and mk: "marked ?c2 = marked ?c1"
    by simp_all
  have "tableNoLater (tau_best ?c1) (tau_best ?c2)"
    unfolding tableNoLater_def
  proof
    fix x
    show "noLater (tau_best ?c1 x) (tau_best ?c2 x)"
      using tau le by (cases "tau_best ?c1 x") (simp_all add: noLater_def)
  qed
  then have "tableNoLater (tauBest (scanMarked eng stt dateISO ?c1))
               (tauBest (scanMarked eng stt dateISO ?c2))"
    unfolding scanMarked_def mk by (intro scanStops_mono) simp
  then show "noLater (tauBest (scanMarked eng stt dateISO ?c1) sid)
               (tauBest (scanMarked eng stt dateISO ?c2) sid)"
    by (simp add: tableNoLater_def)
qed

theorem first_scans_monotone_witness:
  "tableNoLater [''SNCF:gare-a'' \<mapsto> 0] [''SNCF:gare-a'' \<mapsto> 1000]
   \<and> noLater
        (tauBest (scanTrip siblingEngine
                    (mkTrip ''SNCF:101'' ''TER'' ''SNCF'' [(''SNCF:gare-a'', 3000), (''SNCF:gare-b'', 3100)])
                    0 \<lparr>tauBest = [''SNCF:gare-a'' \<mapsto> 0], tau_cur = [], parent = []\<rparr>
                    ''SNCF:r1'' []) ''SNCF:gare-b'')
        (tauBest (scanTrip siblingEngine
                    (mkTrip ''SNCF:101'' ''TER'' ''SNCF'' [(''SNCF:gare-a'', 3000), (''SNCF:gare-b'', 3100)])
                    0 \<lparr>tauBest = [''SNCF:gare-a'' \<mapsto> 1000], tau_cur = [], parent = []\<rparr>
                    ''SNCF:r1'' []) ''SNCF:gare-b'')
   \<and> (0::int) \<le> 1000
   \<and> tauBest (scanMarked siblingEngine (globalStopToTrips siblingEngine) []
                (initCore siblingEngine [''SNCF:gare-a''] 0)) ''SNCF:gare-b'' = Some 2700
   \<and> tauBest (scanMarked siblingEngine (globalStopToTrips siblingEngine) []
                (initCore siblingEngine [''SNCF:gare-a''] 1000)) ''SNCF:gare-b'' = Some 3100
   \<and> noLater (Some 2700) (Some 3100)"
proof -
  let ?s = "\<lparr>tauBest = [''SNCF:gare-a'' \<mapsto> (0::int)], tau_cur = [], parent = []\<rparr>"
  let ?s' = "\<lparr>tauBest = [''SNCF:gare-a'' \<mapsto> (1000::int)], tau_cur = [], parent = []\<rparr>"
  let ?trip = "mkTrip ''SNCF:101'' ''TER'' ''SNCF'' [(''SNCF:gare-a'', 3000), (''SNCF:gare-b'', 3100)]"
  let ?stt = "globalStopToTrips siblingEngine"
  have tab: "tableNoLater [''SNCF:gare-a'' \<mapsto> 0] [''SNCF:gare-a'' \<mapsto> 1000]"
    by (simp add: tableNoLater_def noLater_def)
  have le: "(0::int) \<le> 1000" by simp
  have a: "tauBest (scanMarked siblingEngine ?stt [] (initCore siblingEngine [''SNCF:gare-a''] 0))
             ''SNCF:gare-b'' = Some 2700"
    by code_simp
  have b: "tauBest (scanMarked siblingEngine ?stt [] (initCore siblingEngine [''SNCF:gare-a''] 1000))
             ''SNCF:gare-b'' = Some 3100"
    by code_simp
  note mono = first_scans_monotone [where s = ?s and s' = ?s' and eng = siblingEngine
      and trip = ?trip and fromIdx = 0 and routeId = "''SNCF:r1''" and dateISO = "[]"
      and sid = "''SNCF:gare-b''" and ?t1.0 = 0 and ?t2.0 = 1000 and stt = ?stt
      and originIds = "[''SNCF:gare-a'']"]
  from mono tab le have
    "noLater (tauBest (scanTrip siblingEngine ?trip 0 ?s ''SNCF:r1'' []) ''SNCF:gare-b'')
             (tauBest (scanTrip siblingEngine ?trip 0 ?s' ''SNCF:r1'' []) ''SNCF:gare-b'')"
    "noLater (tauBest (scanMarked siblingEngine ?stt [] (initCore siblingEngine [''SNCF:gare-a''] 0))
                ''SNCF:gare-b'')
             (tauBest (scanMarked siblingEngine ?stt [] (initCore siblingEngine [''SNCF:gare-a''] 1000))
                ''SNCF:gare-b'')"
    by simp_all
  then show ?thesis
    using tab le a b by simp
qed

section \<open>Departure from an inter-city neighbour\<close>

text \<open>
  Claim C9 at a concrete input. The origin \<open>SNCF:gare-a\<close> has the inter-city neighbour
  \<open>SNCF:gare-b\<close>: the initialisation seeds the neighbour at the start time plus 2700
  seconds and leaves it out of the origin set. The only journey to Lille boards its first
  trip at the neighbour, and it is reported with 0 transfers, not 1: the back-walk drops the
  transfer from the origin and the number of transfers is the number of legs minus one.
\<close>

theorem intercity_departure_transfers:
  "tau_best (initCore metroEngine [''SNCF:gare-a''] 0) ''SNCF:gare-b'' = Some (0 + 2700)
   \<and> ''SNCF:gare-b'' \<notin> set (originSet (initCore metroEngine [''SNCF:gare-a''] 0))
   \<and> map (map from_id \<circ> legs)
        (raptorCore metroEngine [''SNCF:gare-a''] (Some [''SNCF:lille'']) 0
           (globalStopToTrips metroEngine) []) = [[''SNCF:gare-b'']]
   \<and> map transfers
        (raptorCore metroEngine [''SNCF:gare-a''] (Some [''SNCF:lille'']) 0
           (globalStopToTrips metroEngine) []) = [0]"
  by code_simp

end
